theory Spec2Isabelle
  imports Complex_Main
begin

section \<open>Values shared by the modelled modules\<close>

text \<open>
  The error classes the modelled code can raise. \<open>ValidationError\<close>, \<open>OverflowError\<close> and
  \<open>ComputationLimitError\<close> are the library's own classes; \<open>RangeError\<close> is the native
  JavaScript error of a BigInt division by zero.
\<close>

datatype error = ValidationError | OverflowError | ComputationLimitError | RangeError

text \<open>
  JavaScript's \<open>a / b\<close> on BigInt operands truncates the quotient toward zero and throws a
  native \<open>RangeError\<close> when \<open>b\<close> is \<open>0n\<close>.
\<close>

definition bigint_div :: "int \<Rightarrow> int \<Rightarrow> error + int" where
  "bigint_div a b =
     (if b = 0 then Inl RangeError else Inr (sgn a * sgn b * (\<bar>a\<bar> div \<bar>b\<bar>)))"

text \<open>The remainder \<open>a % b\<close> that goes with it (sign of the dividend).\<close>

definition bigint_rem :: "int \<Rightarrow> int \<Rightarrow> error + int" where
  "bigint_rem a b = (if b = 0 then Inl RangeError else Inr (sgn a * (\<bar>a\<bar> mod \<bar>b\<bar>)))"


text \<open>
  \<open>toString()\<close> of a BigInt: the decimal digits, most significant first, after a minus
  sign when the value is negative. \<open>x.toString().length\<close> is the length of this string.
\<close>

definition digit_char :: "nat \<Rightarrow> char" where
  "digit_char d = char_of (48 + d)"

function decimal_digits :: "nat \<Rightarrow> string" where
  "decimal_digits n =
     (if n < 10 then [digit_char n] else decimal_digits (n div 10) @ [digit_char (n mod 10)])"
  by pat_completeness auto
termination
  by (relation "measure (\<lambda>n. n)") auto

declare decimal_digits.simps [simp del]

definition toString :: "int \<Rightarrow> string" where
  "toString x = (if x < 0 then CHR ''-'' # decimal_digits (nat (- x)) else decimal_digits (nat x))"

section \<open>Inputs and configuration (src/types/common, src/utils/validation)\<close>

text \<open>
  \<open>NumericInput\<close> is \<open>bigint | string | number\<close>. A number is represented by its value
  when it is integral; \<open>NonIntegerInput\<close> stands for every number that is not (a fraction,
  \<open>NaN\<close>, an infinity).
\<close>

datatype NumericInput =
    BigIntInput int
  | NumberInput int
  | NonIntegerInput
  | StringInput string

definition digit_of :: "char \<Rightarrow> nat option" where
  "digit_of c = (let v = (of_char c :: nat) in if 48 \<le> v \<and> v \<le> 57 then Some (v - 48) else None)"

fun parse_digits :: "string \<Rightarrow> nat \<Rightarrow> nat option" where
  "parse_digits [] acc = Some acc"
| "parse_digits (c # cs) acc =
     (case digit_of c of None \<Rightarrow> None | Some d \<Rightarrow> parse_digits cs (10 * acc + d))"

definition parse_integer :: "string \<Rightarrow> int option" where
  "parse_integer s =
     (case s of
        [] \<Rightarrow> None
      | c # cs \<Rightarrow>
          if c = CHR ''-'' then
            (if cs = [] then None else map_option (\<lambda>n. - int n) (parse_digits cs 0))
          else map_option int (parse_digits s 0))"

text \<open>
  Modelled from the spec: \<open>toBigInt\<close> of src/utils/validation.ts, which is not among the
  source files. The spec's Numeric Normalizer yields the exact integer of an integer-valued
  text or number and fails with a ValidationError on anything else (a decimal point, an
  exponent marker, a non-digit character, a non-integral number).
\<close>

definition toBigInt :: "NumericInput \<Rightarrow> error + int" where
  "toBigInt input =
     (case input of
        BigIntInput v \<Rightarrow> Inr v
      | NumberInput v \<Rightarrow> Inr v
      | NonIntegerInput \<Rightarrow> Inl ValidationError
      | StringInput s \<Rightarrow>
          (case parse_integer s of None \<Rightarrow> Inl ValidationError | Some v \<Rightarrow> Inr v))"

text \<open>\<open>typeof input === 'string' && input.includes('e')\<close>\<close>

definition isStringWithE :: "NumericInput \<Rightarrow> bool" where
  "isStringWithE input = (case input of StringInput s \<Rightarrow> CHR ''e'' \<in> set s | _ \<Rightarrow> False)"

text \<open>
  The fields of \<open>HypernumConfig\<close> that the modelled code reads (through
  \<open>config as any\<close>); each may be absent. Numbers held by a configuration are integers.
\<close>

record HypernumConfig =
  precision :: "int option"
  maxSteps :: "int option"
  debug :: "bool option"
  checkOverflow :: "bool option"

section \<open>Strategy selection (src/operations/dimensional.ts)\<close>

datatype StrategyDimension =
    GROWTH_RISK
  | PRECISION_TENSION
  | RECURSION_DEPTH
  | HEURISTIC_FIT
  | MEMORY_PRESSURE
  | USER_INTENT

text \<open>
  Activation strengths and thresholds are JavaScript numbers. They are modelled as
  rationals: every value the code compares is a short decimal fraction or a quotient of a
  configuration integer, and no comparison made falls within rounding distance of its
  threshold.
\<close>

record DimensionProfile =
  dimension :: StrategyDimension
  activation :: rat
  threshold :: rat
  evidence :: "string list"

record DGTMetadata =
  operationCount :: int
  maxValueSeen :: int
  avgComputationTime :: rat

record DGTContext =
  activeDimensions :: "StrategyDimension list"
  profiles :: "StrategyDimension \<Rightarrow> DimensionProfile option"
  config :: HypernumConfig
  inputHistory :: "NumericInput list"
  metadata :: DGTMetadata

datatype StrategyType = Exact | Heuristic | Staged | MemorySafe

datatype Complexity = Low | Medium | High | Extreme

record StrategyProfile =
  primary :: StrategyType
  fallbacks :: "string list"
  expectedPrecision :: rat
  estimatedComplexity :: Complexity
  reasoning :: string

text \<open>\<open>DIMENSION_THRESHOLDS[StrategyDimension.GROWTH_RISK].base_size\<close>\<close>

definition GROWTH_RISK_base_size :: int where
  "GROWTH_RISK_base_size = 1000"

definition isPromotableScalar :: "NumericInput \<Rightarrow> bool" where
  "isPromotableScalar input =
     (case toBigInt input of
        Inl err \<Rightarrow> False
      | Inr v \<Rightarrow>
          (let magnitude = (if v < 0 then - v else v)
           in magnitude > 1000 \<or> length (toString magnitude) > 10 \<or> isStringWithE input))"

definition promoteToDimension :: "NumericInput \<Rightarrow> error + DimensionProfile option" where
  "promoteToDimension input =
     (if \<not> isPromotableScalar input then Inr None
      else
        (case toBigInt input of
           Inl err \<Rightarrow> Inl err
         | Inr v \<Rightarrow>
             (let magnitude = (if v < 0 then - v else v);
                  (activation1, evidence1) =
                     (if magnitude > GROWTH_RISK_base_size
                      then (3 / 10, [''Large magnitude: '' @ toString magnitude])
                      else (0, []));
                  (activation2, evidence2) =
                     (if length (toString magnitude) > 50
                      then (activation1 + 4 / 10,
                            evidence1 @ [''Extremely large number: ''
                                          @ toString (int (length (toString magnitude))) @ '' digits''])
                      else (activation1, evidence1));
                  (activation3, evidence3) =
                     (if isStringWithE input
                      then (activation2 + 3 / 10, evidence2 @ [''Scientific notation input detected''])
                      else (activation2, evidence2))
              in Inr (Some \<lparr> dimension = GROWTH_RISK,
                              activation = min activation3 1,
                              threshold = 1 / 2,
                              evidence = evidence3 \<rparr>))))"

text \<open>The loop of \<open>detectDimensions\<close> over the inputs.\<close>

fun detectInputs :: "NumericInput list \<Rightarrow> DimensionProfile list \<Rightarrow> error + DimensionProfile list" where
  "detectInputs [] acc = Inr acc"
| "detectInputs (input # rest) acc =
     (case promoteToDimension input of
        Inl err \<Rightarrow> Inl err
      | Inr None \<Rightarrow> detectInputs rest acc
      | Inr (Some profile) \<Rightarrow>
          if activation profile \<ge> threshold profile
          then detectInputs rest (acc @ [profile])
          else detectInputs rest acc)"

definition detectDimensions ::
  "NumericInput list \<Rightarrow> HypernumConfig \<Rightarrow> DGTContext option \<Rightarrow> error + DimensionProfile list" where
  "detectDimensions inputs cfg context =
     (case detectInputs inputs [] of
        Inl err \<Rightarrow> Inl err
      | Inr profiles0 \<Rightarrow>
          (let profiles1 =
                 (case precision cfg of
                    Some p \<Rightarrow>
                      if p \<noteq> 0 \<and> p > 10
                      then profiles0 @ [\<lparr> dimension = PRECISION_TENSION,
                                           activation = min (of_int p / 50) 1,
                                           threshold = 3 / 10,
                                           evidence = [''High precision required: '' @ toString p] \<rparr>]
                      else profiles0
                  | None \<Rightarrow> profiles0);
               profiles2 =
                 (case maxSteps cfg of
                    Some m \<Rightarrow>
                      if m \<noteq> 0 \<and> m > 500
                      then profiles1 @ [\<lparr> dimension = RECURSION_DEPTH,
                                           activation = min (of_int m / 2000) 1,
                                           threshold = 4 / 10,
                                           evidence = [''High step limit: '' @ toString m] \<rparr>]
                      else profiles1
                  | None \<Rightarrow> profiles1);
               profiles3 =
                 (if debug cfg = Some True
                  then profiles2 @ [\<lparr> dimension = USER_INTENT,
                                       activation = 1,
                                       threshold = 1 / 2,
                                       evidence = [''Debug mode indicates development/testing context''] \<rparr>]
                  else profiles2)
           in Inr profiles3))"

definition resolveStrategy ::
  "NumericInput list \<Rightarrow> HypernumConfig \<Rightarrow> DGTContext option \<Rightarrow> error + StrategyProfile" where
  "resolveStrategy inputs cfg context =
     (case detectDimensions inputs cfg context of
        Inl err \<Rightarrow> Inl err
      | Inr detected \<Rightarrow>
          (let active =
                 map dimension (filter (\<lambda>p. activation p \<ge> threshold p) detected)
           in if GROWTH_RISK \<in> set active then
                (if HEURISTIC_FIT \<in> set active then
                   Inr \<lparr> primary = Heuristic,
                         fallbacks = [''staged'', ''exact''],
                         expectedPrecision = 95 / 100,
                         estimatedComplexity = Medium,
                         reasoning = ''Growth risk detected, heuristics acceptable'' \<rparr>
                 else
                   Inr \<lparr> primary = Staged,
                         fallbacks = [''memory-safe'', ''heuristic''],
                         expectedPrecision = 99 / 100,
                         estimatedComplexity = High,
                         reasoning = ''Growth risk requires careful staged computation'' \<rparr>)
              else if PRECISION_TENSION \<in> set active then
                Inr \<lparr> primary = Exact,
                      fallbacks = [''staged''],
                      expectedPrecision = 1,
                      estimatedComplexity = High,
                      reasoning = ''High precision required, no approximations'' \<rparr>
              else if RECURSION_DEPTH \<in> set active then
                Inr \<lparr> primary = MemorySafe,
                      fallbacks = [''heuristic'', ''staged''],
                      expectedPrecision = 98 / 100,
                      estimatedComplexity = Medium,
                      reasoning = ''Recursion depth limits require iterative approach'' \<rparr>
              else
                Inr \<lparr> primary = Exact,
                      fallbacks = [''staged''],
                      expectedPrecision = 1,
                      estimatedComplexity = Low,
                      reasoning = ''No special dimensions detected, using exact computation'' \<rparr>))"

section \<open>Binomial coefficients (src/operations/dimensional.ts)\<close>


text \<open>
  The loop of \<open>computeStagedBinomial\<close>:
  \<^verbatim>\<open>for (let i = 0n; i < actualK; i++) { result = result * currentN / (i + 1n); currentN--; }\<close>
\<close>

function stagedBinomial_loop :: "int \<Rightarrow> int \<Rightarrow> int \<Rightarrow> int \<Rightarrow> error + int" where
  "stagedBinomial_loop actualK i result currentN =
     (if i < actualK then
        (case bigint_div (result * currentN) (i + 1) of
           Inl err \<Rightarrow> Inl err
         | Inr result' \<Rightarrow> stagedBinomial_loop actualK (i + 1) result' (currentN - 1))
      else Inr result)"
  by pat_completeness auto
termination
  by (relation "measure (\<lambda>(actualK, i, result, currentN). nat (actualK - i))") auto

declare stagedBinomial_loop.simps [simp del]

definition computeStagedBinomial :: "int \<Rightarrow> int \<Rightarrow> HypernumConfig \<Rightarrow> error + int" where
  "computeStagedBinomial n k cfg =
     (let actualK = (if k > n - k then n - k else k)
      in stagedBinomial_loop actualK 0 1 n)"

text \<open>
  The loop of \<open>computeIterativeBinomial\<close>:
  \<^verbatim>\<open>for (let i = 1n; i <= k; i++) { result = result * (n - i + 1n) / i; }\<close>
\<close>

function iterativeBinomial_loop :: "int \<Rightarrow> int \<Rightarrow> int \<Rightarrow> int \<Rightarrow> error + int" where
  "iterativeBinomial_loop n k i result =
     (if i \<le> k then
        (case bigint_div (result * (n - i + 1)) i of
           Inl err \<Rightarrow> Inl err
         | Inr result' \<Rightarrow> iterativeBinomial_loop n k (i + 1) result')
      else Inr result)"
  by pat_completeness auto
termination
  by (relation "measure (\<lambda>(n, k, i, result). nat (k + 1 - i))") auto

declare iterativeBinomial_loop.simps [simp del]

definition computeIterativeBinomial :: "int \<Rightarrow> int \<Rightarrow> error + int" where
  "computeIterativeBinomial n k =
     (if k > n then Inr 0
      else if k = 0 \<or> k = n then Inr 1
      else (let k' = (if k > n - k then n - k else k)
            in iterativeBinomial_loop n k' 1 1))"

text \<open>
  The divisions the loop of \<open>computeIterativeBinomial\<close> performs, in order, as pairs of
  dividend \<open>result * (n - i + 1)\<close> and divisor \<open>i\<close>: the same recursion as
  \<open>iterativeBinomial_loop\<close>, recording the operands of each division instead of the
  final accumulator.
\<close>

function iterativeBinomial_divisions :: "int \<Rightarrow> int \<Rightarrow> int \<Rightarrow> int \<Rightarrow> (int \<times> int) list" where
  "iterativeBinomial_divisions n k i result =
     (if i \<le> k then
        (case bigint_div (result * (n - i + 1)) i of
           Inl err \<Rightarrow> [(result * (n - i + 1), i)]
         | Inr result' \<Rightarrow>
             (result * (n - i + 1), i) # iterativeBinomial_divisions n k (i + 1) result')
      else [])"
  by pat_completeness auto
termination
  by (relation "measure (\<lambda>(n, k, i, result). nat (k + 1 - i))") auto

declare iterativeBinomial_divisions.simps [simp del]

definition computeIterativeBinomial_divisions :: "int \<Rightarrow> int \<Rightarrow> (int \<times> int) list" where
  "computeIterativeBinomial_divisions n k =
     (if k > n then []
      else if k = 0 \<or> k = n then []
      else (let k' = (if k > n - k then n - k else k)
            in iterativeBinomial_divisions n k' 1 1))"

section \<open>Powers (src/operations/dimensional.ts)\<close>

text \<open>
  The inner loop of \<open>computeIterativePower\<close>:
  \<^verbatim>\<open>for (let i = 0n; i < chunk; i++) { chunkResult *= currentBase; }\<close>
\<close>

function powerChunk_loop :: "int \<Rightarrow> int \<Rightarrow> int \<Rightarrow> int \<Rightarrow> int" where
  "powerChunk_loop i chunk currentBase chunkResult =
     (if i < chunk then powerChunk_loop (i + 1) chunk currentBase (chunkResult * currentBase)
      else chunkResult)"
  by pat_completeness auto
termination
  by (relation "measure (\<lambda>(i, chunk, currentBase, chunkResult). nat (chunk - i))") auto

declare powerChunk_loop.simps [simp del]

text \<open>
  The outer loop, \<open>while (remaining > 0n) { ... }\<close>. With a chunk size that is not
  positive the loop never ends, so the model is a partial function: \<open>None\<close> is a
  computation that does not return.
\<close>

partial_function (option) iterativePower_loop ::
  "int \<Rightarrow> int \<Rightarrow> int \<Rightarrow> int \<Rightarrow> (error + int) option" where
  "iterativePower_loop remaining chunkSize currentBase result =
     (if remaining > 0 then
        (let chunk = (if remaining > chunkSize then chunkSize else remaining);
             chunkResult = powerChunk_loop 0 chunk currentBase 1;
             result' = result * chunkResult;
             remaining' = remaining - chunk
         in if length (toString result') > 1000 then Some (Inl ValidationError)
            else iterativePower_loop remaining' chunkSize currentBase result')
      else Some (Inr result))"

definition computeIterativePower :: "int \<Rightarrow> int \<Rightarrow> int \<Rightarrow> (error + int) option" where
  "computeIterativePower base exponent chunkSize =
     (if exponent = 0 then Some (Inr 1)
      else if exponent = 1 then Some (Inr base)
      else iterativePower_loop exponent chunkSize base 1)"

text \<open>
  The accumulators that \<open>computeIterativePower\<close> tests against the limit are the powers
  \<open>base ^ m\<close> for the multiples \<open>m\<close> of the chunk size below the exponent, and for the
  exponent itself. \<open>overLimitBetween b c lo e\<close>: one of them, with \<open>lo < m \<le> e\<close>, has a
  decimal string of more than 1000 characters.
\<close>

definition overLimitBetween :: "int \<Rightarrow> int \<Rightarrow> int \<Rightarrow> int \<Rightarrow> bool" where
  "overLimitBetween b c lo e \<longleftrightarrow>
     (\<exists>m \<in> {lo<..e}. (c dvd m \<or> m = e) \<and> 1000 < length (toString (b ^ nat m)))"

text \<open>
  The same test with the size of an accumulator read as its number of decimal digits, the
  sign left out: one of the accumulators the loop tests has more than 1000 decimal digits.
\<close>

definition digitsOverLimitBetween :: "int \<Rightarrow> int \<Rightarrow> int \<Rightarrow> int \<Rightarrow> bool" where
  "digitsOverLimitBetween b c lo e \<longleftrightarrow>
     (\<exists>m \<in> {lo<..e}. (c dvd m \<or> m = e) \<and> 1000 < length (decimal_digits (nat \<bar>b ^ nat m\<bar>)))"

text \<open>
  \<open>power.power\<close> lives in src/operations/power.ts, which is not among the source files.
  The functions that call it take it as the parameter \<open>pw\<close>, so that what is proved of
  them holds for every implementation of it.
\<close>

type_synonym power_fn = "NumericInput \<Rightarrow> NumericInput \<Rightarrow> HypernumConfig \<Rightarrow> error + int"

text \<open>\<open>basicConfig.maxSteps || 1000\<close>: an absent or zero step limit counts as 1000.\<close>

definition stagedMaxSteps :: "HypernumConfig \<Rightarrow> int" where
  "stagedMaxSteps cfg = (case maxSteps cfg of None \<Rightarrow> 1000 | Some m \<Rightarrow> if m = 0 then 1000 else m)"

definition computeStagedPower :: "power_fn \<Rightarrow> int \<Rightarrow> int \<Rightarrow> HypernumConfig \<Rightarrow> error + int" where
  "computeStagedPower pw base exponent cfg =
     (let maxSteps' = stagedMaxSteps cfg
      in if exponent > maxSteps' then Inl ValidationError
         else pw (BigIntInput base) (BigIntInput exponent) (cfg\<lparr>maxSteps := Some maxSteps'\<rparr>))"

text \<open>
  \<open>computeSmartPower\<close> returns \<open>bigint | number\<close>. The number is the logarithmic
  estimate \<open>Math.log(Number(bigBase)) * Number(bigExponent)\<close> of the heuristic strategy; it
  is kept symbolic, as the pair of its operands.
\<close>

datatype PowerResult = BigIntResult int | LogEstimate int int

definition computeSmartPower ::
  "power_fn \<Rightarrow> NumericInput \<Rightarrow> NumericInput \<Rightarrow> HypernumConfig \<Rightarrow> DGTContext option
     \<Rightarrow> (error + PowerResult) option" where
  "computeSmartPower pw base exponent cfg context =
     (case toBigInt base of
        Inl err \<Rightarrow> Some (Inl err)
      | Inr bigBase \<Rightarrow>
     (case toBigInt exponent of
        Inl err \<Rightarrow> Some (Inl err)
      | Inr bigExponent \<Rightarrow>
     (case resolveStrategy [base, exponent] cfg context of
        Inl err \<Rightarrow> Some (Inl err)
      | Inr strategy \<Rightarrow>
          if bigBase > 10 \<and> bigExponent > 100 then
            (if primary strategy = Heuristic
             then Some (Inr (LogEstimate bigBase bigExponent))
             else Some (Inl ValidationError))
          else
            (case primary strategy of
               Staged \<Rightarrow>
                 Some (map_sum id BigIntResult (computeStagedPower pw bigBase bigExponent cfg))
             | MemorySafe \<Rightarrow>
                 map_option (map_sum id BigIntResult) (computeIterativePower bigBase bigExponent 1000)
             | _ \<Rightarrow> Some (map_sum id BigIntResult (pw base exponent cfg))))))"

text \<open>
  Modelled from the spec: \<open>power.power\<close> of src/operations/power.ts, which is not among
  the source files. The spec has it fail with a ValidationError on a negative exponent,
  return the exact power when overflow checking is disabled, and fail with an OverflowError
  when overflow checking is enabled and the result exceeds the bit bound (the spec's
  \<open>maxBits\<close>, here the first argument). It instantiates \<open>pw\<close> where a closed term is needed.
\<close>

definition power_spec :: "nat \<Rightarrow> power_fn" where
  "power_spec maxBits base exponent cfg =
     (case toBigInt base of
        Inl err \<Rightarrow> Inl err
      | Inr b \<Rightarrow>
     (case toBigInt exponent of
        Inl err \<Rightarrow> Inl err
      | Inr e \<Rightarrow>
          if e < 0 then Inl ValidationError
          else if checkOverflow cfg = Some False then Inr (b ^ nat e)
          else if 2 ^ maxBits \<le> \<bar>b ^ nat e\<bar> then Inl OverflowError
          else Inr (b ^ nat e)))"

section \<open>Dimension conflicts (src/utils/dimensionUtils.ts)\<close>

text \<open>
  \<open>resolveDimensionConflicts\<close> receives an array of profile objects and assigns to a
  field of one of them, so the objects live in a store: a reference is an address, the
  store maps each address to the object there, and an array is the list of the references
  it holds.
\<close>

text \<open>
  The activation of a profile is a JavaScript number, and \<open>resolveDimensionConflicts\<close>
  stores products of such numbers. A double is a rational, and the product the code stores is
  the exact product rounded to the nearest double, ties to the even mantissa. \<open>toDouble\<close>
  is that rounding: the magnitude is scaled by powers of two into the range of a 53-bit
  mantissa (with the exponent of the subnormal numbers, \<open>-1074\<close>, as the lowest one), the
  mantissa is rounded to an integer, and the scaling is undone. Magnitudes beyond the largest
  double are not turned into an infinity.
\<close>

definition pow2 :: "int \<Rightarrow> rat" where
  "pow2 e = (if 0 \<le> e then 2 ^ nat e else 1 / 2 ^ nat (- e))"

definition roundHalfEven :: "rat \<Rightarrow> int" where
  "roundHalfEven x =
     (let f = \<lfloor>x\<rfloor>; d = x - of_int f
      in if d < 1 / 2 then f else if 1 / 2 < d then f + 1 else if even f then f else f + 1)"

text \<open>Halve while the magnitude is at least \<open>2 ^ 53\<close>.\<close>

function scaleDown :: "rat \<Rightarrow> int \<Rightarrow> rat \<times> int" where
  "scaleDown a e = (if 9007199254740992 \<le> a then scaleDown (a / 2) (e + 1) else (a, e))"
  by pat_completeness auto
termination
proof (relation "measure (\<lambda>(a, e). nat \<lfloor>a\<rfloor>)")
  show "wf (measure (\<lambda>(a, e). nat \<lfloor>a\<rfloor>))" by simp
next
  fix a :: rat and e :: int
  assume a: "9007199254740992 \<le> a"
  then have "1 \<le> a / 2" by simp
  then have "\<lfloor>a / 2\<rfloor> + 1 \<le> \<lfloor>a / 2 + a / 2\<rfloor>"
    by (metis add.commute add_mono_thms_linordered_semiring(2) floor_add_int floor_mono
          of_int_floor_le order_trans le_floor_iff of_int_1)
  then have "\<lfloor>a / 2\<rfloor> < \<lfloor>a\<rfloor>" by simp
  moreover have "0 < \<lfloor>a\<rfloor>" using a by (simp add: less_floor_iff)
  ultimately show "((a / 2, e + 1), (a, e)) \<in> measure (\<lambda>(a, e). nat \<lfloor>a\<rfloor>)"
    by simp
qed

text \<open>Double while the magnitude is below \<open>2 ^ 52\<close> and the exponent above \<open>-1074\<close>.\<close>

function scaleUp :: "rat \<Rightarrow> int \<Rightarrow> rat \<times> int" where
  "scaleUp a e = (if a < 4503599627370496 \<and> - 1074 < e then scaleUp (2 * a) (e - 1) else (a, e))"
  by pat_completeness auto
termination
  by (relation "measure (\<lambda>(a, e). nat (e + 1074))") auto

declare scaleDown.simps [simp del] scaleUp.simps [simp del]

definition toDouble :: "rat \<Rightarrow> rat" where
  "toDouble x =
     (if x = 0 then 0
      else (let (a1, e1) = scaleDown \<bar>x\<bar> 0;
                (a2, e2) = scaleUp a1 e1
            in sgn x * of_int (roundHalfEven a2) * pow2 e2))"

type_synonym ref = nat

type_synonym store = "ref \<Rightarrow> DimensionProfile"

text \<open>\<open>Array.prototype.findIndex\<close>: the index of the first match, or \<open>-1\<close>.\<close>

fun findIndex_from :: "('a \<Rightarrow> bool) \<Rightarrow> 'a list \<Rightarrow> int \<Rightarrow> int" where
  "findIndex_from P [] i = - 1"
| "findIndex_from P (x # xs) i = (if P x then i else findIndex_from P xs (i + 1))"

definition findIndex :: "('a \<Rightarrow> bool) \<Rightarrow> 'a list \<Rightarrow> int" where
  "findIndex P xs = findIndex_from P xs 0"

definition checkDimensionConflicts :: "store \<Rightarrow> ref list \<Rightarrow> string list" where
  "checkDimensionConflicts h ps =
     (let dims = map (\<lambda>p. dimension (h p)) ps;
          conflicts1 =
            (if PRECISION_TENSION \<in> set dims \<and> HEURISTIC_FIT \<in> set dims
             then [''Precision requirements conflict with heuristic approximations'']
             else []);
          conflicts2 =
            (if GROWTH_RISK \<in> set dims \<and> RECURSION_DEPTH \<in> set dims
             then conflicts1 @ [''Growth risk combined with recursion depth may cause overflow'']
             else conflicts1)
      in conflicts2)"

record Resolution =
  resolution :: string
  adjustedProfiles :: "ref list"

text \<open>
  The function returns its result and leaves the store as its assignments made it.
  \<open>[...profiles]\<close> is a new array holding the same references. The factors \<open>0.5\<close> and
  \<open>1.0\<close> are doubles; the literal \<open>1.2\<close> is the double nearest to it.
\<close>

definition resolveDimensionConflicts :: "store \<Rightarrow> ref list \<Rightarrow> store \<times> Resolution" where
  "resolveDimensionConflicts h ps =
     (let conflicts = checkDimensionConflicts h ps
      in if length conflicts = 0
         then (h, \<lparr> resolution = ''No conflicts detected'', adjustedProfiles = ps \<rparr>)
         else
           (let adjusted = ps;
                resolution0 = ''Conflicts resolved by: '';
                precisionIndex = findIndex (\<lambda>p. dimension (h p) = PRECISION_TENSION) adjusted;
                heuristicIndex = findIndex (\<lambda>p. dimension (h p) = HEURISTIC_FIT) adjusted;
                (h1, resolution1) =
                  (if precisionIndex \<noteq> - 1 \<and> heuristicIndex \<noteq> - 1
                   then (let r = adjusted ! nat heuristicIndex
                         in (h(r := (h r)\<lparr>activation := toDouble (activation (h r) * (1 / 2))\<rparr>),
                             resolution0 @ ''reducing heuristic priority for precision; ''))
                   else (h, resolution0));
                memoryIndex = findIndex (\<lambda>p. dimension (h1 p) = MEMORY_PRESSURE) adjusted;
                recursionIndex = findIndex (\<lambda>p. dimension (h1 p) = RECURSION_DEPTH) adjusted;
                (h2, resolution2) =
                  (if memoryIndex \<noteq> - 1 \<and> recursionIndex \<noteq> - 1
                   then (let r = adjusted ! nat memoryIndex
                         in (h1(r := (h1 r)\<lparr>activation :=
                                       min (toDouble (activation (h1 r) * toDouble (12 / 10))) 1\<rparr>),
                             resolution1 @ ''prioritizing memory safety over recursion optimization''))
                   else (h1, resolution1))
            in (h2, \<lparr> resolution = resolution2, adjustedProfiles = adjusted \<rparr>)))"

text \<open>
  A store for the examples below: the object at address \<open>0\<close> is a precision-tension
  profile, every other address holds a heuristic-fit profile of activation \<open>1\<close>.
\<close>

definition exampleProfiles :: store where
  "exampleProfiles r =
     (if r = 0 then \<lparr> dimension = PRECISION_TENSION, activation = 9 / 10, threshold = 3 / 10,
                       evidence = [''1 decimal inputs requiring precision''] \<rparr>
      else \<lparr> dimension = HEURISTIC_FIT, activation = 1, threshold = 1 / 2,
              evidence = [''1 inputs suitable for approximation''] \<rparr>)"

section \<open>Division (src/operations/arithmetic.ts)\<close>

text \<open>
  Modelled from the spec: \<open>divide\<close> of src/operations/arithmetic.ts, which is not among the
  source files. The spec's Arithmetic Kernel composes the Numeric Normalizer with the
  operation: both operands are normalized, either failing with the Normalizer's
  ValidationError, and division fails with a ValidationError (DivisionByZero) when the divisor
  normalizes to zero. The quotient of a division by a divisor that is not zero depends on the
  precision engine; it is the parameter \<open>quot\<close>.
\<close>

definition hypernum_divide ::
  "(int \<Rightarrow> int \<Rightarrow> error + int) \<Rightarrow> NumericInput \<Rightarrow> NumericInput \<Rightarrow> error + int" where
  "hypernum_divide quot a b =
     (case toBigInt a of
        Inl err \<Rightarrow> Inl err
      | Inr x \<Rightarrow>
     (case toBigInt b of
        Inl err \<Rightarrow> Inl err
      | Inr y \<Rightarrow> if y = 0 then Inl ValidationError else quot x y))"

section \<open>Properties of the binomial computations\<close>

lemma bigint_div_exact:
  assumes "0 < d" "0 \<le> q"
  shows "bigint_div (q * d) d = Inr q"
  using assms by (simp add: bigint_div_def sgn_if zero_less_mult_iff abs_mult)

lemma choose_step:
  assumes "j < n"
  shows "int (n choose j) * (int n - int j) = int (n choose Suc j) * (int j + 1)"
proof -
  have "(n - j) * (n choose j) = Suc j * (n choose Suc j)"
    by (simp only: binomial_absorb_comp binomial_absorption)
  then have "int ((n - j) * (n choose j)) = int (Suc j * (n choose Suc j))"
    by (rule arg_cong)
  with assms show ?thesis
    by (simp add: of_nat_diff algebra_simps)
qed

lemma iterativeBinomial_loop_choose:
  assumes "0 \<le> k" "k \<le> n" "1 \<le> i" "i \<le> k + 1"
  shows "iterativeBinomial_loop n k i (int (nat n choose nat (i - 1)))
           = Inr (int (nat n choose nat k))"
  using assms
proof (induction "nat (k + 1 - i)" arbitrary: i)
  case 0
  then have "i = k + 1" by simp
  then show ?case
    by (simp add: iterativeBinomial_loop.simps)
next
  case (Suc m)
  then have ik: "i \<le> k" by linarith
  have j: "nat (i - 1) < nat n" using Suc.prems ik by linarith
  have "int (nat n choose nat (i - 1)) * (n - i + 1)
          = int (nat n choose Suc (nat (i - 1))) * i"
    using choose_step [OF j] Suc.prems ik by (simp add: algebra_simps)
  moreover have "Suc (nat (i - 1)) = nat i" using Suc.prems by linarith
  ultimately have step: "int (nat n choose nat (i - 1)) * (n - i + 1) = int (nat n choose nat i) * i"
    by simp
  have div: "bigint_div (int (nat n choose nat (i - 1)) * (n - i + 1)) i = Inr (int (nat n choose nat i))"
    unfolding step using Suc.prems by (intro bigint_div_exact) simp_all
  have "iterativeBinomial_loop n k (i + 1) (int (nat n choose nat ((i + 1) - 1)))
          = Inr (int (nat n choose nat k))"
    using Suc.hyps Suc.prems ik by (intro Suc.hyps(1)) simp_all
  then show ?case
    using ik div by (subst iterativeBinomial_loop.simps) simp
qed

lemma computeIterativeBinomial_choose:
  assumes "0 \<le> k" "k \<le> n"
  shows "computeIterativeBinomial n k = Inr (int (nat n choose nat k))"
proof -
  consider "k = 0" | "k = n" | "0 < k" "k < n" using assms by linarith
  then show ?thesis
  proof cases
    case 1
    then show ?thesis using assms by (simp add: computeIterativeBinomial_def)
  next
    case 2
    then show ?thesis using assms by (simp add: computeIterativeBinomial_def)
  next
    case 3
    define k' where "k' = (if k > n - k then n - k else k)"
    have k': "0 \<le> k'" "k' \<le> n" using 3 by (simp_all add: k'_def)
    have sym: "nat n choose nat k' = nat n choose nat k"
    proof (cases "k > n - k")
      case True
      then have "nat k' = nat n - nat k" using 3 by (simp add: k'_def nat_diff_distrib)
      moreover have "nat k \<le> nat n" using 3 by simp
      ultimately show ?thesis by (simp add: binomial_symmetric [symmetric])
    next
      case False
      then show ?thesis by (simp add: k'_def)
    qed
    have "iterativeBinomial_loop n k' 1 (int (nat n choose nat (1 - 1))) = Inr (int (nat n choose nat k'))"
      using k' by (intro iterativeBinomial_loop_choose) simp_all
    then show ?thesis
      using 3 sym by (simp add: computeIterativeBinomial_def k'_def)
  qed
qed

section \<open>Decimal strings and the chunked power loop\<close>


lemma length_decimal_digits_pos: "0 < length (decimal_digits n)"
  by (subst decimal_digits.simps) simp

lemma decimal_digits_upper: "n < 10 ^ length (decimal_digits n)"
proof (induction n rule: decimal_digits.induct)
  case (1 n)
  show ?case
  proof (cases "n < 10")
    case True
    then show ?thesis by (subst decimal_digits.simps) simp
  next
    case False
    then have "n div 10 < 10 ^ length (decimal_digits (n div 10))" using 1 by simp
    then have "n < 10 * 10 ^ length (decimal_digits (n div 10))" by linarith
    then show ?thesis using False by (subst decimal_digits.simps) simp
  qed
qed

lemma decimal_digits_lower: "0 < n \<Longrightarrow> 10 ^ (length (decimal_digits n) - 1) \<le> n"
proof (induction n rule: decimal_digits.induct)
  case (1 n)
  show ?case
  proof (cases "n < 10")
    case True
    then show ?thesis using 1 by (subst decimal_digits.simps) simp
  next
    case False
    then have pos: "0 < n div 10" by simp
    have "10 ^ (length (decimal_digits (n div 10)) - 1) \<le> n div 10"
      using 1 False pos by simp
    then have "10 * 10 ^ (length (decimal_digits (n div 10)) - 1) \<le> n" by linarith
    moreover have "length (decimal_digits n) - 1 = Suc (length (decimal_digits (n div 10)) - 1)"
      using False length_decimal_digits_pos [of "n div 10"]
      by (subst decimal_digits.simps) simp
    ultimately show ?thesis by simp
  qed
qed

lemma length_decimal_digits_le_iff:
  assumes "0 < k"
  shows "length (decimal_digits n) \<le> k \<longleftrightarrow> n < 10 ^ k"
proof
  assume "length (decimal_digits n) \<le> k"
  then have "(10::nat) ^ length (decimal_digits n) \<le> 10 ^ k"
    by (intro power_increasing) simp_all
  with decimal_digits_upper [of n] show "n < 10 ^ k" by linarith
next
  assume lt: "n < 10 ^ k"
  show "length (decimal_digits n) \<le> k"
  proof (cases "n = 0")
    case True
    then show ?thesis using assms by (subst decimal_digits.simps) simp
  next
    case False
    then have "(10::nat) ^ (length (decimal_digits n) - 1) \<le> n"
      using decimal_digits_lower [of n] by simp
    then have "(10::nat) ^ (length (decimal_digits n) - 1) < 10 ^ k"
      using lt by (rule le_less_trans)
    then have "length (decimal_digits n) - 1 < k"
      by (subst (asm) power_strict_increasing_iff) simp_all
    then show ?thesis by linarith
  qed
qed

lemma length_decimal_digits_mono:
  assumes "m \<le> n"
  shows "length (decimal_digits m) \<le> length (decimal_digits n)"
proof -
  have "n < 10 ^ length (decimal_digits n)" by (rule decimal_digits_upper)
  with assms have "m < 10 ^ length (decimal_digits n)" by linarith
  then show ?thesis
    using length_decimal_digits_le_iff [OF length_decimal_digits_pos, of m n] by simp
qed

lemma length_toString_nonneg: "0 \<le> x \<Longrightarrow> length (toString x) = length (decimal_digits (nat x))"
  by (simp add: toString_def)

lemma length_toString_neg: "x < 0 \<Longrightarrow> length (toString x) = Suc (length (decimal_digits (nat (- x))))"
  by (simp add: toString_def)

lemma length_toString_abs_le: "length (decimal_digits (nat \<bar>x\<bar>)) \<le> length (toString x)"
  by (cases "x < 0") (simp_all add: toString_def)

lemma length_toString_mono:
  assumes "0 \<le> x" "x \<le> \<bar>y\<bar>"
  shows "length (toString x) \<le> length (toString y)"
proof -
  have "length (toString x) = length (decimal_digits (nat x))"
    using assms by (simp add: length_toString_nonneg)
  also have "\<dots> \<le> length (decimal_digits (nat \<bar>y\<bar>))"
    using assms by (intro length_decimal_digits_mono) simp
  also have "\<dots> \<le> length (toString y)" by (rule length_toString_abs_le)
  finally show ?thesis .
qed

lemma powerChunk_loop_power:
  assumes "i \<le> chunk"
  shows "powerChunk_loop i chunk cb acc = acc * cb ^ nat (chunk - i)"
  using assms
proof (induction "nat (chunk - i)" arbitrary: i acc)
  case 0
  then show ?case by (subst powerChunk_loop.simps) simp
next
  case (Suc m)
  then have lt: "i < chunk" by linarith
  have "powerChunk_loop (i + 1) chunk cb (acc * cb) = acc * cb * cb ^ nat (chunk - (i + 1))"
    using Suc lt by (intro Suc.hyps(1)) simp_all
  moreover have "nat (chunk - i) = Suc (nat (chunk - (i + 1)))" using lt by simp
  ultimately show ?case
    using lt by (subst powerChunk_loop.simps) simp
qed


lemma iterativePower_loop_done:
  "remaining \<le> 0 \<Longrightarrow> iterativePower_loop remaining c b r = Some (Inr r)"
  by (subst iterativePower_loop.simps) simp

lemma iterativePower_loop_step:
  assumes "0 < remaining" "0 < c"
  shows "iterativePower_loop remaining c b r =
           (if 1000 < length (toString (r * b ^ nat (min c remaining))) then Some (Inl ValidationError)
            else iterativePower_loop (remaining - min c remaining) c b (r * b ^ nat (min c remaining)))"
proof -
  have chunk: "(if remaining > c then c else remaining) = min c remaining" by simp
  have "0 \<le> min c remaining" using assms by simp
  then have "powerChunk_loop 0 (min c remaining) b 1 = b ^ nat (min c remaining)"
    by (simp add: powerChunk_loop_power)
  then show ?thesis
    using assms(1) by (subst iterativePower_loop.simps) (simp only: chunk Let_def if_True)
qed

lemma overLimitBetween_iff:
  "overLimitBetween b c lo e \<longleftrightarrow>
     (\<exists>m. lo < m \<and> m \<le> e \<and> (c dvd m \<or> m = e) \<and> 1000 < length (toString (b ^ nat m)))"
  unfolding overLimitBetween_def Bex_def greaterThanAtMost_iff by (simp only: conj_assoc)

lemma iterativePower_loop_closed:
  assumes c: "0 < c" and rem: "0 \<le> rem" "rem \<le> e" and inv: "c dvd (e - rem) \<or> rem = 0"
  shows "iterativePower_loop rem c b (b ^ nat (e - rem)) =
           Some (if overLimitBetween b c (e - rem) e then Inl ValidationError else Inr (b ^ nat e))"
  using rem inv
proof (induction "nat rem" arbitrary: rem rule: less_induct)
  case less
  show ?case
  proof (cases "rem = 0")
    case True
    then show ?thesis
      by (simp add: iterativePower_loop_done overLimitBetween_iff)
  next
    case False
    then have pos: "0 < rem" using less.prems by simp
    define chunk where "chunk = min c rem"
    define m0 where "m0 = e - rem + chunk"
    have chunk: "0 < chunk" "chunk \<le> rem" "chunk \<le> c" using c pos by (simp_all add: chunk_def)
    have dvd: "c dvd (e - rem)" using less.prems False by simp
    have acc: "b ^ nat (e - rem) * b ^ nat chunk = b ^ nat m0"
      using less.prems chunk by (simp add: m0_def power_add [symmetric] nat_add_distrib)
    have step: "iterativePower_loop rem c b (b ^ nat (e - rem)) =
                  (if 1000 < length (toString (b ^ nat m0)) then Some (Inl ValidationError)
                   else iterativePower_loop (rem - chunk) c b (b ^ nat m0))"
      using iterativePower_loop_step [OF pos c, of b "b ^ nat (e - rem)"]
      by (simp only: chunk_def [symmetric] acc)
    have cp: "c dvd m0 \<or> m0 = e"
    proof (cases "rem > c")
      case True
      then have "m0 = (e - rem) + c" by (simp add: m0_def chunk_def)
      then show ?thesis using dvd by simp
    next
      case False
      then show ?thesis by (simp add: m0_def chunk_def)
    qed
    have only: "m = m0" if m: "e - rem < m" "m \<le> m0" "c dvd m \<or> m = e" for m
    proof -
      from m(3) show ?thesis
      proof
        assume "c dvd m"
        then have "c dvd (m - (e - rem))" using dvd by (rule dvd_diff)
        moreover have "0 < m - (e - rem)" using m by simp
        ultimately have "c \<le> m - (e - rem)" by (rule zdvd_imp_le)
        then show ?thesis using m chunk by (simp add: m0_def)
      next
        assume "m = e"
        then show ?thesis using m chunk by (simp add: m0_def)
      qed
    qed
    have m0: "e - rem < m0" "m0 \<le> e" using chunk by (simp_all add: m0_def)
    have split: "overLimitBetween b c (e - rem) e \<longleftrightarrow>
                   1000 < length (toString (b ^ nat m0)) \<or> overLimitBetween b c m0 e"
    proof
      assume "overLimitBetween b c (e - rem) e"
      then obtain m where m: "e - rem < m" "m \<le> e" "c dvd m \<or> m = e"
          "1000 < length (toString (b ^ nat m))"
        unfolding overLimitBetween_iff by blast
      show "1000 < length (toString (b ^ nat m0)) \<or> overLimitBetween b c m0 e"
      proof (cases "m \<le> m0")
        case True
        then have "m = m0" using m by (intro only)
        then show ?thesis using m by simp
      next
        case False
        then have "m0 < m" by simp
        then have "overLimitBetween b c m0 e" using m unfolding overLimitBetween_iff by blast
        then show ?thesis by simp
      qed
    next
      assume "1000 < length (toString (b ^ nat m0)) \<or> overLimitBetween b c m0 e"
      then show "overLimitBetween b c (e - rem) e"
      proof
        assume "1000 < length (toString (b ^ nat m0))"
        then show ?thesis using m0 cp unfolding overLimitBetween_iff by blast
      next
        assume "overLimitBetween b c m0 e"
        then obtain m where "m0 < m" "m \<le> e" "c dvd m \<or> m = e"
            "1000 < length (toString (b ^ nat m))"
          unfolding overLimitBetween_iff by blast
        moreover from this m0 have "e - rem < m" by simp
        ultimately show ?thesis unfolding overLimitBetween_iff by blast
      qed
    qed
    have rem': "e - (rem - chunk) = m0" by (simp add: m0_def)
    have "iterativePower_loop (rem - chunk) c b (b ^ nat (e - (rem - chunk))) =
            Some (if overLimitBetween b c (e - (rem - chunk)) e then Inl ValidationError
                  else Inr (b ^ nat e))"
    proof (rule less.hyps)
      show "nat (rem - chunk) < nat rem" using chunk pos by simp
      show "0 \<le> rem - chunk" using chunk by simp
      show "rem - chunk \<le> e" using chunk less.prems by simp
      show "c dvd e - (rem - chunk) \<or> rem - chunk = 0"
        using cp by (auto simp: rem' m0_def)
    qed
    then have IH: "iterativePower_loop (rem - chunk) c b (b ^ nat m0) =
            Some (if overLimitBetween b c m0 e then Inl ValidationError else Inr (b ^ nat e))"
      by (simp only: rem')
    show ?thesis
      unfolding step split IH by simp
  qed
qed

lemma computeIterativePower_closed:
  assumes "0 < c" "0 \<le> e"
  shows "computeIterativePower b e c =
           Some (if 2 \<le> e \<and> overLimitBetween b c 0 e then Inl ValidationError else Inr (b ^ nat e))"
proof -
  consider "e = 0" | "e = 1" | "2 \<le> e" using assms by linarith
  then show ?thesis
  proof cases
    case 1
    then show ?thesis by (simp add: computeIterativePower_def)
  next
    case 2
    then show ?thesis by (simp add: computeIterativePower_def)
  next
    case 3
    have "iterativePower_loop e c b (b ^ nat (e - e)) =
            Some (if overLimitBetween b c (e - e) e then Inl ValidationError else Inr (b ^ nat e))"
      using assms by (intro iterativePower_loop_closed) simp_all
    then show ?thesis using 3 by (simp add: computeIterativePower_def)
  qed
qed


section \<open>The binomial loops compute binomial coefficients\<close>


lemma bigint_rem_exact:
  assumes "0 < d" "0 \<le> q"
  shows "bigint_rem (q * d) d = Inr 0"
  using assms by (simp add: bigint_rem_def abs_mult)

lemma iterativeBinomial_step:
  assumes "0 \<le> k" "k \<le> n" "1 \<le> i" "i \<le> k"
  shows "int (nat n choose nat (i - 1)) * (n - i + 1) = int (nat n choose nat i) * i"
proof -
  have j: "nat (i - 1) < nat n" using assms by linarith
  have "int (nat n choose nat (i - 1)) * (n - i + 1)
          = int (nat n choose Suc (nat (i - 1))) * i"
    using choose_step [OF j] assms by (simp add: algebra_simps)
  moreover have "Suc (nat (i - 1)) = nat i" using assms by linarith
  ultimately show ?thesis by simp
qed

lemma iterativeBinomial_divisions_exact:
  assumes "0 \<le> k" "k \<le> n" "1 \<le> i" "i \<le> k + 1"
  shows "\<forall>(p, d) \<in> set (iterativeBinomial_divisions n k i (int (nat n choose nat (i - 1)))).
           bigint_rem p d = Inr 0"
  using assms
proof (induction "nat (k + 1 - i)" arbitrary: i)
  case 0
  then have "i = k + 1" by simp
  then show ?case
    by (simp add: iterativeBinomial_divisions.simps)
next
  case (Suc m)
  then have ik: "i \<le> k" by linarith
  have step: "int (nat n choose nat (i - 1)) * (n - i + 1) = int (nat n choose nat i) * i"
    using Suc.prems ik by (intro iterativeBinomial_step) simp_all
  have div: "bigint_div (int (nat n choose nat (i - 1)) * (n - i + 1)) i = Inr (int (nat n choose nat i))"
    unfolding step using Suc.prems by (intro bigint_div_exact) simp_all
  have rem: "bigint_rem (int (nat n choose nat (i - 1)) * (n - i + 1)) i = Inr 0"
    unfolding step using Suc.prems by (intro bigint_rem_exact) simp_all
  have "\<forall>(p, d) \<in> set (iterativeBinomial_divisions n k (i + 1) (int (nat n choose nat ((i + 1) - 1)))).
           bigint_rem p d = Inr 0"
    using Suc.hyps Suc.prems ik by (intro Suc.hyps(1)) simp_all
  then show ?case
    using ik div rem by (subst iterativeBinomial_divisions.simps) simp
qed

lemma computeIterativeBinomial_divisions_exact:
  assumes "0 \<le> k" "k \<le> n"
  shows "\<forall>(p, d) \<in> set (computeIterativeBinomial_divisions n k). bigint_rem p d = Inr 0"
proof -
  define k' where "k' = (if k > n - k then n - k else k)"
  have k': "0 \<le> k'" "k' \<le> n" using assms by (simp_all add: k'_def)
  have "\<forall>(p, d) \<in> set (iterativeBinomial_divisions n k' 1 (int (nat n choose nat (1 - 1)))).
           bigint_rem p d = Inr 0"
    using k' by (intro iterativeBinomial_divisions_exact) simp_all
  then show ?thesis
    by (simp add: computeIterativeBinomial_divisions_def k'_def)
qed

lemma stagedBinomial_loop_choose:
  assumes "0 \<le> i" "i \<le> actualK" "actualK \<le> n"
  shows "stagedBinomial_loop actualK i (int (nat n choose nat i)) (n - i)
           = Inr (int (nat n choose nat actualK))"
  using assms
proof (induction "nat (actualK - i)" arbitrary: i)
  case 0
  then have "i = actualK" by simp
  then show ?case
    by (simp add: stagedBinomial_loop.simps)
next
  case (Suc m)
  then have lt: "i < actualK" by linarith
  have "int (nat n choose nat ((i + 1) - 1)) * (n - (i + 1) + 1) = int (nat n choose nat (i + 1)) * (i + 1)"
    using Suc.prems lt by (intro iterativeBinomial_step [where k = actualK]) simp_all
  then have step: "int (nat n choose nat i) * (n - i) = int (nat n choose nat (i + 1)) * (i + 1)"
    by simp
  have div: "bigint_div (int (nat n choose nat i) * (n - i)) (i + 1) = Inr (int (nat n choose nat (i + 1)))"
    unfolding step using Suc.prems by (intro bigint_div_exact) simp_all
  have "stagedBinomial_loop actualK (i + 1) (int (nat n choose nat (i + 1))) (n - (i + 1))
          = Inr (int (nat n choose nat actualK))"
    using Suc.hyps Suc.prems lt by (intro Suc.hyps(1)) simp_all
  then show ?case
    using lt div by (subst stagedBinomial_loop.simps) (simp add: algebra_simps)
qed

lemma choose_symmetric_int:
  assumes "0 \<le> k" "k \<le> n"
  shows "nat n choose nat (n - k) = nat n choose nat k"
proof -
  have "nat (n - k) = nat n - nat k" using assms by (simp add: nat_diff_distrib)
  moreover have "nat k \<le> nat n" using assms by simp
  ultimately show ?thesis by (simp add: binomial_symmetric [symmetric])
qed

lemma computeStagedBinomial_choose:
  assumes "0 \<le> k" "k \<le> n"
  shows "computeStagedBinomial n k cfg = Inr (int (nat n choose nat k))"
proof -
  define actualK where "actualK = (if k > n - k then n - k else k)"
  have a: "0 \<le> actualK" "actualK \<le> n" using assms by (simp_all add: actualK_def)
  have sym: "nat n choose nat actualK = nat n choose nat k"
    using assms by (simp add: actualK_def choose_symmetric_int)
  have "stagedBinomial_loop actualK 0 (int (nat n choose nat 0)) (n - 0)
          = Inr (int (nat n choose nat actualK))"
    using a by (intro stagedBinomial_loop_choose) simp_all
  then show ?thesis
    using sym by (simp add: computeStagedBinomial_def actualK_def)
qed

text \<open>
  Claim C2. For every \<open>n \<ge> 0\<close> and every \<open>k\<close> with \<open>0 \<le> k \<le> n\<close>, the loop of
  \<open>computeIterativeBinomial\<close>, which multiplies before it divides, ends with the binomial
  coefficient \<open>C(n, k)\<close>, and every division it performs leaves the remainder zero, so the
  accumulator is an exact integer at every step.
\<close>
theorem computeIterativeBinomial_exact_steps:
  assumes "0 \<le> n" "0 \<le> k" "k \<le> n"
  shows "computeIterativeBinomial n k = Inr (int (nat n choose nat k)) \<and>
         (\<forall>(p, d) \<in> set (computeIterativeBinomial_divisions n k). bigint_rem p d = Inr 0)"
  using assms computeIterativeBinomial_choose computeIterativeBinomial_divisions_exact by blast

theorem computeIterativeBinomial_exact_steps_witness:
  "computeIterativeBinomial 10 3 = Inr 120 \<and>
   computeIterativeBinomial_divisions 10 3 = [(10, 1), (90, 2), (360, 3)] \<and>
   bigint_rem 10 1 = Inr 0 \<and> bigint_rem 90 2 = Inr 0 \<and> bigint_rem 360 3 = Inr 0"
proof -
  have h: "(0::int) \<le> 10" "(0::int) \<le> 3" "(3::int) \<le> 10" by simp_all
  have c: "int (nat 10 choose nat 3) = 120" by code_simp
  have d: "computeIterativeBinomial_divisions 10 3 = [(10, 1), (90, 2), (360, 3)]" by code_simp
  show ?thesis
    using computeIterativeBinomial_exact_steps [OF h] c d by simp
qed

text \<open>
  Claim C5. For every \<open>n \<ge> 0\<close> and every \<open>k\<close> with \<open>0 \<le> k \<le> n\<close>,
  \<open>computeIterativeBinomial\<close> gives the same result for \<open>k\<close> and for \<open>n - k\<close>.
\<close>
theorem computeIterativeBinomial_symmetric:
  assumes "0 \<le> n" "0 \<le> k" "k \<le> n"
  shows "computeIterativeBinomial n k = computeIterativeBinomial n (n - k)"
proof -
  have "computeIterativeBinomial n (n - k) = Inr (int (nat n choose nat (n - k)))"
    using assms by (intro computeIterativeBinomial_choose) simp_all
  then show ?thesis
    using assms by (simp add: computeIterativeBinomial_choose choose_symmetric_int)
qed

theorem computeIterativeBinomial_symmetric_witness:
  "computeIterativeBinomial 10 3 = computeIterativeBinomial 10 (10 - 3) \<and>
   computeIterativeBinomial 10 7 = Inr 120"
proof -
  have h: "(0::int) \<le> 10" "(0::int) \<le> 3" "(3::int) \<le> 10" by simp_all
  have "computeIterativeBinomial 10 7 = Inr 120" by code_simp
  then show ?thesis
    using computeIterativeBinomial_symmetric [OF h] by simp
qed

text \<open>
  Claim C8. For every \<open>n \<ge> 0\<close>, every \<open>k\<close> with \<open>0 \<le> k \<le> n\<close> and every configuration,
  \<open>computeStagedBinomial\<close> and \<open>computeIterativeBinomial\<close> return the same value; the
  configuration has no effect on it.
\<close>
theorem computeStagedBinomial_eq_iterative:
  assumes "0 \<le> n" "0 \<le> k" "k \<le> n"
  shows "computeStagedBinomial n k cfg = computeIterativeBinomial n k"
  using assms by (simp add: computeStagedBinomial_choose computeIterativeBinomial_choose)

theorem computeStagedBinomial_eq_iterative_witness:
  "computeStagedBinomial 10 3 \<lparr> precision = None, maxSteps = Some 7, debug = None, checkOverflow = None \<rparr>
     = computeIterativeBinomial 10 3 \<and>
   computeStagedBinomial 10 3 \<lparr> precision = None, maxSteps = Some 7, debug = None, checkOverflow = None \<rparr>
     = Inr 120"
proof -
  have h: "(0::int) \<le> 10" "(0::int) \<le> 3" "(3::int) \<le> 10" by simp_all
  have "computeIterativeBinomial 10 3 = Inr 120" by code_simp
  then show ?thesis
    using computeStagedBinomial_eq_iterative [OF h] by simp
qed

text \<open>
  Claim C9. For every \<open>n \<ge> 0\<close> and every \<open>k > n\<close>, \<open>computeIterativeBinomial\<close> returns
  \<open>0\<close> and raises no error.
\<close>
theorem computeIterativeBinomial_k_above_n:
  assumes "0 \<le> n" "n < k"
  shows "computeIterativeBinomial n k = Inr 0"
  using assms by (simp add: computeIterativeBinomial_def)

theorem computeIterativeBinomial_k_above_n_witness:
  "(0::int) \<le> 3 \<and> (3::int) < 5 \<and> computeIterativeBinomial 3 5 = Inr 0"
  using computeIterativeBinomial_k_above_n [of 3 5] by simp


section \<open>Strategy selection, powers, conflicts and division\<close>


lemma promoteToDimension_cases:
  "promoteToDimension input = Inr None \<or>
   (\<exists>p. promoteToDimension input = Inr (Some p) \<and> dimension p = GROWTH_RISK)"
proof (cases "toBigInt input")
  case (Inl err)
  then show ?thesis
    by (simp add: promoteToDimension_def isPromotableScalar_def)
next
  case (Inr v)
  then show ?thesis
    by (simp add: promoteToDimension_def Let_def split_def)
qed

lemma detectInputs_ok:
  assumes "\<forall>p \<in> set acc. dimension p \<noteq> HEURISTIC_FIT"
  shows "\<exists>ps. detectInputs inputs acc = Inr ps \<and> (\<forall>p \<in> set ps. dimension p \<noteq> HEURISTIC_FIT)"
  using assms
proof (induction inputs arbitrary: acc)
  case Nil
  then show ?case by simp
next
  case (Cons input rest)
  from promoteToDimension_cases [of input] show ?case
  proof
    assume "promoteToDimension input = Inr None"
    then show ?thesis using Cons by simp
  next
    assume "\<exists>p. promoteToDimension input = Inr (Some p) \<and> dimension p = GROWTH_RISK"
    then obtain p where p: "promoteToDimension input = Inr (Some p)" "dimension p = GROWTH_RISK"
      by blast
    have "\<forall>q \<in> set (acc @ [p]). dimension q \<noteq> HEURISTIC_FIT"
      using Cons.prems p by simp
    then have "\<exists>ps. detectInputs rest (acc @ [p]) = Inr ps \<and> (\<forall>p \<in> set ps. dimension p \<noteq> HEURISTIC_FIT)"
      by (rule Cons.IH)
    moreover have "\<exists>ps. detectInputs rest acc = Inr ps \<and> (\<forall>p \<in> set ps. dimension p \<noteq> HEURISTIC_FIT)"
      using Cons.prems by (rule Cons.IH)
    ultimately show ?thesis using p by simp
  qed
qed

lemma detectDimensions_ok:
  "\<exists>ps. detectDimensions inputs cfg ctx = Inr ps \<and> (\<forall>p \<in> set ps. dimension p \<noteq> HEURISTIC_FIT)"
proof -
  obtain ps0 where ps0: "detectInputs inputs [] = Inr ps0" "\<forall>p \<in> set ps0. dimension p \<noteq> HEURISTIC_FIT"
    using detectInputs_ok [of "[]" inputs] by auto
  then show ?thesis
    by (auto simp: detectDimensions_def Let_def split: option.splits)
qed

lemma resolveStrategy_ok:
  "\<exists>s. resolveStrategy inputs cfg ctx = Inr s \<and> primary s \<noteq> Heuristic"
proof -
  obtain ps where ps: "detectDimensions inputs cfg ctx = Inr ps" "\<forall>p \<in> set ps. dimension p \<noteq> HEURISTIC_FIT"
    using detectDimensions_ok by blast
  then have "HEURISTIC_FIT \<notin> set (map dimension (filter (\<lambda>p. activation p \<ge> threshold p) ps))"
    by auto
  then show ?thesis
    using ps(1) by (simp add: resolveStrategy_def Let_def)
qed

lemma length_toString_le:
  assumes "0 < k" "\<bar>x\<bar> < 10 ^ k" "0 \<le> x"
  shows "length (toString x) \<le> k"
proof -
  have "nat x < 10 ^ k"
    using assms by (simp add: nat_less_iff)
  then show ?thesis
    using assms by (simp add: length_toString_nonneg length_decimal_digits_le_iff)
qed

lemma length_toString_gt:
  assumes "0 < k" "10 ^ k \<le> \<bar>x\<bar>"
  shows "k < length (toString x)"
proof -
  have "\<not> nat \<bar>x\<bar> < 10 ^ k"
    using assms by (simp add: nat_less_iff)
  then have "\<not> length (decimal_digits (nat \<bar>x\<bar>)) \<le> k"
    using assms by (simp add: length_decimal_digits_le_iff)
  then show ?thesis
    using length_toString_abs_le [of x] by linarith
qed

lemma overLimit_even_chunk:
  assumes "even c" "0 < c" "0 < e"
  shows "overLimitBetween b c 0 e \<longleftrightarrow> 1000 < length (toString (b ^ nat e))"
proof
  assume "overLimitBetween b c 0 e"
  then obtain m where m: "0 < m" "m \<le> e" "c dvd m \<or> m = e" "1000 < length (toString (b ^ nat m))"
    unfolding overLimitBetween_iff by blast
  show "1000 < length (toString (b ^ nat e))"
  proof (cases "m = e")
    case True
    then show ?thesis using m by simp
  next
    case False
    then have "c dvd m" using m by simp
    then have "even m" using assms(1) by (rule dvd_trans [rotated]) 
    then have "even (nat m)" using m by (simp add: even_nat_iff)
    then have nonneg: "0 \<le> b ^ nat m" by (rule zero_le_even_power)
    have "b ^ nat m \<le> \<bar>b ^ nat e\<bar>"
    proof (cases "b = 0")
      case True
      have "0 < nat m" using m by simp
      then have "b ^ nat m = 0" using True by simp
      moreover have "0 \<le> \<bar>b ^ nat e\<bar>" by (rule abs_ge_zero)
      ultimately show ?thesis by (simp only:)
    next
      case False
      then have "1 \<le> \<bar>b\<bar>" by simp
      then have "\<bar>b\<bar> ^ nat m \<le> \<bar>b\<bar> ^ nat e"
        using m by (intro power_increasing) simp_all
      moreover have "b ^ nat m \<le> \<bar>b ^ nat m\<bar>" by (rule abs_ge_self)
      ultimately show ?thesis by (simp only: power_abs)
    qed
    with nonneg have "length (toString (b ^ nat m)) \<le> length (toString (b ^ nat e))"
      by (rule length_toString_mono)
    with m show ?thesis by linarith
  qed
next
  assume "1000 < length (toString (b ^ nat e))"
  then show "overLimitBetween b c 0 e"
    using assms unfolding overLimitBetween_iff by blast
qed

lemma computeIterativePower_1000:
  assumes "0 \<le> e"
  shows "computeIterativePower b e 1000 =
           (if 2 \<le> e \<and> 1000 < length (toString (b ^ nat e)) then Some (Inl ValidationError)
            else Some (Inr (b ^ nat e)))"
proof (cases "2 \<le> e")
  case True
  then have "overLimitBetween b 1000 0 e \<longleftrightarrow> 1000 < length (toString (b ^ nat e))"
    by (intro overLimit_even_chunk) simp_all
  then show ?thesis
    using assms by (simp add: computeIterativePower_closed)
next
  case False
  then show ?thesis
    using assms by (simp add: computeIterativePower_closed)
qed

lemma stagedMaxSteps_update [simp]:
  "stagedMaxSteps (cfg\<lparr>checkOverflow := v\<rparr>) = stagedMaxSteps cfg"
  by (simp add: stagedMaxSteps_def)

text \<open>
  Claim C1, amended. With overflow checking disabled and an exponent that is not negative,
  \<open>computeSmartPower\<close> keeps its own guards, none of which reads \<open>checkOverflow\<close>:
  it fails with a ValidationError when the base is above 10 and the exponent above 100; on
  the memory-safe strategy it fails with a ValidationError when the exponent is at least 2 and
  the decimal string of \<open>base ^ exponent\<close> is longer than 1000 characters, and returns exactly
  \<open>base ^ exponent\<close> otherwise; on the staged strategy it fails with a ValidationError when
  the exponent is above the step limit and returns what \<open>power.power\<close> returns otherwise; on
  the exact strategy it returns what \<open>power.power\<close> returns.
\<close>

theorem computeSmartPower_unchecked:
  assumes "toBigInt base = Inr b" "toBigInt exponent = Inr e" "0 \<le> e"
  shows "\<exists>s. resolveStrategy [base, exponent] (cfg\<lparr>checkOverflow := Some False\<rparr>) ctx = Inr s \<and>
     computeSmartPower pw base exponent (cfg\<lparr>checkOverflow := Some False\<rparr>) ctx =
       (if 10 < b \<and> 100 < e then Some (Inl ValidationError)
        else if primary s = MemorySafe then
          (if 2 \<le> e \<and> 1000 < length (toString (b ^ nat e)) then Some (Inl ValidationError)
           else Some (Inr (BigIntResult (b ^ nat e))))
        else if primary s = Staged then
          (if stagedMaxSteps cfg < e then Some (Inl ValidationError)
           else Some (map_sum id BigIntResult
                        (pw (BigIntInput b) (BigIntInput e)
                            (cfg\<lparr>checkOverflow := Some False, maxSteps := Some (stagedMaxSteps cfg)\<rparr>))))
        else Some (map_sum id BigIntResult (pw base exponent (cfg\<lparr>checkOverflow := Some False\<rparr>))))"
proof -
  obtain s where s: "resolveStrategy [base, exponent] (cfg\<lparr>checkOverflow := Some False\<rparr>) ctx = Inr s"
      "primary s \<noteq> Heuristic"
    using resolveStrategy_ok by blast
  have "computeSmartPower pw base exponent (cfg\<lparr>checkOverflow := Some False\<rparr>) ctx =
       (if 10 < b \<and> 100 < e then Some (Inl ValidationError)
        else if primary s = MemorySafe then
          (if 2 \<le> e \<and> 1000 < length (toString (b ^ nat e)) then Some (Inl ValidationError)
           else Some (Inr (BigIntResult (b ^ nat e))))
        else if primary s = Staged then
          (if stagedMaxSteps cfg < e then Some (Inl ValidationError)
           else Some (map_sum id BigIntResult
                        (pw (BigIntInput b) (BigIntInput e)
                            (cfg\<lparr>checkOverflow := Some False, maxSteps := Some (stagedMaxSteps cfg)\<rparr>))))
        else Some (map_sum id BigIntResult (pw base exponent (cfg\<lparr>checkOverflow := Some False\<rparr>))))"
    using assms s
    by (cases "primary s")
       (simp_all add: computeSmartPower_def computeStagedPower_def computeIterativePower_1000 Let_def)
  with s(1) show ?thesis by blast
qed


text \<open>
  Claim C1, as stated, fails: with overflow checking disabled, \<open>computeSmartPower(11n, 101n)\<close>
  does not return \<open>11 ^ 101\<close>; its growth guard throws a ValidationError.
\<close>

theorem computeSmartPower_unchecked_counterexample:
  "computeSmartPower (power_spec 64) (BigIntInput 11) (BigIntInput 101)
     \<lparr> precision = None, maxSteps = None, debug = None, checkOverflow = Some False \<rparr> None
   = Some (Inl ValidationError)"
  by code_simp

lemma length_toString_two_power:
  assumes "0 < n"
  shows "length (toString ((2::int) ^ n)) \<le> n"
proof -
  have "(2::int) ^ n < 10 ^ n"
    using assms by (intro power_strict_mono) simp_all
  then have "\<bar>(2::int) ^ n\<bar> < 10 ^ n" by simp
  then show ?thesis
    using assms by (intro length_toString_le) simp_all
qed

text \<open>
  In particular \<open>computeSmartPower(2n, 1000n)\<close> with overflow checking disabled and a step
  limit of 1000 returns exactly \<open>2 ^ 1000\<close>.
\<close>

theorem computeSmartPower_unchecked_witness:
  "computeSmartPower (power_spec 64) (BigIntInput 2) (BigIntInput 1000)
     \<lparr> precision = None, maxSteps = Some 1000, debug = None, checkOverflow = Some False \<rparr> None
   = Some (Inr (BigIntResult (2 ^ 1000)))"
proof -
  define P where "P = (2::int) ^ 1000"
  define cfg where
    "cfg = \<lparr> precision = None, maxSteps = Some 1000, debug = None, checkOverflow = Some False \<rparr>"
  have e: "nat (1000::int) = 1000" by simp
  have cfg: "cfg\<lparr>checkOverflow := Some False\<rparr> = cfg" by (simp add: cfg_def)
  have len: "length (toString P) \<le> 1000"
    unfolding P_def by (rule length_toString_two_power) simp
  have strat: "resolveStrategy [BigIntInput 2, BigIntInput 1000] cfg None =
      Inr \<lparr> primary = MemorySafe, fallbacks = [''heuristic'', ''staged''],
            expectedPrecision = 98 / 100, estimatedComplexity = Medium,
            reasoning = ''Recursion depth limits require iterative approach'' \<rparr>"
    unfolding cfg_def by code_simp
  have b: "toBigInt (BigIntInput 2) = Inr 2" "toBigInt (BigIntInput 1000) = Inr 1000" "(0::int) \<le> 1000"
    by (simp_all add: toBigInt_def)
  note inst = computeSmartPower_unchecked [OF b, of cfg None "power_spec 64", unfolded e cfg, folded P_def]
  have "computeSmartPower (power_spec 64) (BigIntInput 2) (BigIntInput 1000) cfg None
          = Some (Inr (BigIntResult P))"
    using inst strat len by simp
  then show ?thesis
    unfolding P_def cfg_def .
qed

text \<open>
  Claim C3 asks for a ValidationError on every negative exponent. On the memory-safe strategy
  \<open>computeSmartPower(2n, -1n)\<close> returns \<open>1n\<close> instead: the loop of
  \<open>computeIterativePower\<close> is never entered and nothing rejects the exponent.
\<close>
theorem computeSmartPower_negative_exponent_returns_one:
  "computeSmartPower (power_spec 64) (BigIntInput 2) (BigIntInput (- 1))
     \<lparr> precision = None, maxSteps = Some 1000, debug = None, checkOverflow = Some True \<rparr> None
   = Some (Inr (BigIntResult 1))"
proof -
  have strat: "resolveStrategy [BigIntInput 2, BigIntInput (- 1)]
      \<lparr> precision = None, maxSteps = Some 1000, debug = None, checkOverflow = Some True \<rparr> None =
      Inr \<lparr> primary = MemorySafe, fallbacks = [''heuristic'', ''staged''],
            expectedPrecision = 98 / 100, estimatedComplexity = Medium,
            reasoning = ''Recursion depth limits require iterative approach'' \<rparr>"
    by code_simp
  show ?thesis
    by (simp add: computeSmartPower_def toBigInt_def strat computeIterativePower_def
          iterativePower_loop_done)
qed

lemma promoteToDimension_large:
  assumes "toBigInt input = Inr v" "10 ^ 50 \<le> \<bar>v\<bar>"
  shows "\<exists>p. promoteToDimension input = Inr (Some p) \<and> dimension p = GROWTH_RISK \<and>
             threshold p \<le> activation p"
proof -
  define magnitude where "magnitude = (if v < 0 then - v else v)"
  have mag: "magnitude = \<bar>v\<bar>" by (simp add: magnitude_def)
  have big: "1000 < magnitude" using assms(2) by (simp add: mag)
  have "50 < length (toString magnitude)"
    using assms(2) by (intro length_toString_gt) (simp_all add: mag)
  then show ?thesis
    using assms(1) big
    by (simp add: promoteToDimension_def isPromotableScalar_def Let_def
          GROWTH_RISK_base_size_def magnitude_def [symmetric])
qed

lemma detectInputs_keeps:
  assumes "detectInputs inputs acc = Inr ps"
  shows "set acc \<subseteq> set ps"
  using assms
proof (induction inputs arbitrary: acc)
  case Nil
  then show ?case by simp
next
  case (Cons input rest)
  show ?case
  proof (cases "promoteToDimension input")
    case (Inl err)
    then show ?thesis using Cons.prems by simp
  next
    case (Inr r)
    show ?thesis
    proof (cases r)
      case None
      then show ?thesis using Cons Inr by simp
    next
      case (Some p)
      show ?thesis
      proof (cases "threshold p \<le> activation p")
        case True
        then have "detectInputs rest (acc @ [p]) = Inr ps"
          using Cons.prems Inr Some by simp
        then have "set (acc @ [p]) \<subseteq> set ps" by (rule Cons.IH)
        then show ?thesis by simp
      next
        case False
        then have "detectInputs rest acc = Inr ps"
          using Cons.prems Inr Some by simp
        then show ?thesis by (rule Cons.IH)
      qed
    qed
  qed
qed

lemma detectInputs_finds:
  assumes "detectInputs inputs acc = Inr ps" "input \<in> set inputs"
    "promoteToDimension input = Inr (Some p)" "threshold p \<le> activation p"
  shows "p \<in> set ps"
  using assms(1,2)
proof (induction inputs arbitrary: acc)
  case Nil
  then show ?case by simp
next
  case (Cons x rest)
  show ?case
  proof (cases "x = input")
    case True
    then have "detectInputs rest (acc @ [p]) = Inr ps"
      using Cons.prems assms(3,4) by simp
    then have "set (acc @ [p]) \<subseteq> set ps" by (rule detectInputs_keeps)
    then show ?thesis by simp
  next
    case False
    then have mem: "input \<in> set rest" using Cons.prems by simp
    from Cons.prems(1) obtain acc' where "detectInputs rest acc' = Inr ps"
      by (auto split: sum.splits option.splits if_splits)
    then show ?thesis using mem by (rule Cons.IH)
  qed
qed

lemma resolveStrategy_staged:
  assumes "toBigInt input = Inr v" "10 ^ 50 \<le> \<bar>v\<bar>" "input \<in> set inputs"
  shows "\<exists>s. resolveStrategy inputs cfg ctx = Inr s \<and> primary s = Staged"
proof -
  obtain p where p: "promoteToDimension input = Inr (Some p)" "dimension p = GROWTH_RISK"
      "threshold p \<le> activation p"
    using promoteToDimension_large [OF assms(1,2)] by blast
  obtain ps0 where ps0: "detectInputs inputs [] = Inr ps0"
    using detectInputs_ok [of "[]" inputs] by auto
  have p0: "p \<in> set ps0"
    using ps0 assms(3) p(1,3) by (rule detectInputs_finds)
  obtain ps where ps: "detectDimensions inputs cfg ctx = Inr ps"
      "\<forall>q \<in> set ps. dimension q \<noteq> HEURISTIC_FIT"
    using detectDimensions_ok by blast
  have "set ps0 \<subseteq> set ps"
    using ps(1) ps0 by (auto simp: detectDimensions_def Let_def split: option.splits if_splits)
  then have "p \<in> set ps" using p0 by blast
  then have g: "GROWTH_RISK \<in> set (map dimension (filter (\<lambda>q. activation q \<ge> threshold q) ps))"
    using p(2,3) by force
  have h: "HEURISTIC_FIT \<notin> set (map dimension (filter (\<lambda>q. activation q \<ge> threshold q) ps))"
    using ps(2) by auto
  show ?thesis
    using ps(1) g h by (simp add: resolveStrategy_def Let_def)
qed

text \<open>
  Claim C4, as stated, fails: an exponent of 61 digits puts \<open>computeSmartPower\<close> on the
  staged strategy, where it exceeds the step limit of 1000, and the failure is a
  ValidationError.
\<close>

theorem computeSmartPower_budget_counterexample:
  "computeSmartPower (power_spec 64) (BigIntInput 2)
     (BigIntInput 1000000000000000000000000000000000000000000000000000000000000)
     \<lparr> precision = None, maxSteps = Some 1000, debug = None, checkOverflow = Some True \<rparr> None
   = Some (Inl ValidationError)"
proof -
  have v: "toBigInt (BigIntInput 1000000000000000000000000000000000000000000000000000000000000)
             = Inr 1000000000000000000000000000000000000000000000000000000000000"
    by (simp add: toBigInt_def)
  have big: "(10::int) ^ 50 \<le> \<bar>1000000000000000000000000000000000000000000000000000000000000\<bar>"
    by simp
  have mem: "BigIntInput 1000000000000000000000000000000000000000000000000000000000000
      \<in> set [BigIntInput 2, BigIntInput 1000000000000000000000000000000000000000000000000000000000000]"
    by simp
  obtain s where s: "resolveStrategy
      [BigIntInput 2, BigIntInput 1000000000000000000000000000000000000000000000000000000000000]
      \<lparr> precision = None, maxSteps = Some 1000, debug = None, checkOverflow = Some True \<rparr> None = Inr s"
      "primary s = Staged"
    using resolveStrategy_staged [OF v big mem] by blast
  show ?thesis
    by (simp add: computeSmartPower_def toBigInt_def s computeStagedPower_def stagedMaxSteps_def)
qed

lemma iterativePower_loop_error:
  assumes "iterativePower_loop remaining chunkSize currentBase result = Some r"
  shows "r = Inl ValidationError \<or> (\<exists>v. r = Inr v)"
proof (rule iterativePower_loop.raw_induct
    [where P = "\<lambda>_ _ _ _ r. r = Inl ValidationError \<or> (\<exists>v. r = Inr v)", OF _ assms])
  fix f :: "int \<Rightarrow> int \<Rightarrow> int \<Rightarrow> int \<Rightarrow> (error + int) option"
    and remaining chunkSize currentBase result :: int and r :: "error + int"
  assume IH: "\<And>remaining chunkSize currentBase result r.
      f remaining chunkSize currentBase result = Some r \<Longrightarrow>
      r = Inl ValidationError \<or> (\<exists>v. r = Inr v)"
  assume step: "(if remaining > 0 then
        (let chunk = (if remaining > chunkSize then chunkSize else remaining);
             chunkResult = powerChunk_loop 0 chunk currentBase 1;
             result' = result * chunkResult;
             remaining' = remaining - chunk
         in if length (toString result') > 1000 then Some (Inl ValidationError)
            else f remaining' chunkSize currentBase result')
      else Some (Inr result)) = Some r"
  show "r = Inl ValidationError \<or> (\<exists>v. r = Inr v)"
  proof (cases "remaining > 0")
    case False
    then show ?thesis using step by auto
  next
    case True
    define chunk where "chunk = (if remaining > chunkSize then chunkSize else remaining)"
    define result' where "result' = result * powerChunk_loop 0 chunk currentBase 1"
    show ?thesis
    proof (cases "length (toString result') > 1000")
      case True
      then show ?thesis
        using step \<open>remaining > 0\<close> by (simp add: Let_def chunk_def result'_def)
    next
      case False
      then have "f (remaining - chunk) chunkSize currentBase result' = Some r"
        using step \<open>remaining > 0\<close> by (simp add: Let_def chunk_def result'_def)
      then show ?thesis by (rule IH)
    qed
  qed
qed

lemma computeIterativePower_error:
  assumes "computeIterativePower b e c = Some (Inl err)"
  shows "err = ValidationError"
proof -
  have "iterativePower_loop e c b 1 = Some (Inl err)"
    using assms by (simp add: computeIterativePower_def split: if_splits)
  then show ?thesis
    using iterativePower_loop_error by fastforce
qed

lemma toBigInt_error:
  assumes "toBigInt input = Inl err"
  shows "err = ValidationError"
  using assms by (auto simp: toBigInt_def split: NumericInput.splits option.splits)

lemma computeStagedPower_error:
  assumes "computeStagedPower pw b e cfg = Inl err"
  shows "err = ValidationError \<or>
         pw (BigIntInput b) (BigIntInput e) (cfg\<lparr>maxSteps := Some (stagedMaxSteps cfg)\<rparr>) = Inl err"
  using assms by (auto simp: computeStagedPower_def Let_def split: if_splits)

lemma computeSmartPower_error:
  assumes "computeSmartPower pw base exponent cfg ctx = Some (Inl err)"
  shows "err = ValidationError \<or> pw base exponent cfg = Inl err \<or>
         (\<exists>bigBase bigExponent. toBigInt base = Inr bigBase \<and> toBigInt exponent = Inr bigExponent \<and>
            pw (BigIntInput bigBase) (BigIntInput bigExponent)
               (cfg\<lparr>maxSteps := Some (stagedMaxSteps cfg)\<rparr>) = Inl err)"
proof (cases "toBigInt base")
  case (Inl e1)
  then show ?thesis
    using assms toBigInt_error [OF Inl] by (simp add: computeSmartPower_def)
next
  case b: (Inr bigBase)
  show ?thesis
  proof (cases "toBigInt exponent")
    case (Inl e2)
    then show ?thesis
      using assms b toBigInt_error [OF Inl] by (simp add: computeSmartPower_def)
  next
    case e: (Inr bigExponent)
    obtain s where s: "resolveStrategy [base, exponent] cfg ctx = Inr s" "primary s \<noteq> Heuristic"
      using resolveStrategy_ok by blast
    show ?thesis
    proof (cases "10 < bigBase \<and> 100 < bigExponent")
      case True
      then show ?thesis
        using assms b e s by (simp add: computeSmartPower_def)
    next
      case False
      show ?thesis
      proof (cases "primary s")
        case Exact
        then have "map_sum id BigIntResult (pw base exponent cfg) = Inl err"
          using assms b e s False by (simp add: computeSmartPower_def)
        then have "pw base exponent cfg = Inl err"
          by (cases "pw base exponent cfg") simp_all
        then show ?thesis by simp
      next
        case Heuristic
        then show ?thesis using s by simp
      next
        case Staged
        then have "map_sum id BigIntResult (computeStagedPower pw bigBase bigExponent cfg) = Inl err"
          using assms b e s False by (simp add: computeSmartPower_def)
        then have "computeStagedPower pw bigBase bigExponent cfg = Inl err"
          by (cases "computeStagedPower pw bigBase bigExponent cfg") simp_all
        then show ?thesis
          using computeStagedPower_error [of pw bigBase bigExponent cfg err] b e by blast
      next
        case MemorySafe
        then have "map_option (map_sum id BigIntResult) (computeIterativePower bigBase bigExponent 1000)
                     = Some (Inl err)"
          using assms b e s False by (simp add: computeSmartPower_def)
        then obtain r where r: "computeIterativePower bigBase bigExponent 1000 = Some r"
            "map_sum id BigIntResult r = Inl err"
          by auto
        then have "r = Inl err" by (cases r) simp_all
        then show ?thesis
          using r(1) computeIterativePower_error by blast
      qed
    qed
  qed
qed

text \<open>
  Claim C4, amended. The guards of the dimensional power functions report the bounds they
  enforce as ValidationErrors: \<open>computeStagedPower\<close> when the exponent is above the step
  limit, \<open>computeIterativePower\<close> when the exponent is at least 2 and the decimal string of
  the result is longer than 1000 characters, \<open>computeSmartPower\<close> when the base is above 10
  and the exponent above 100. No other kind of error starts in these functions: an error of
  \<open>computeIterativePower\<close> is a ValidationError, and an error of \<open>computeStagedPower\<close> or
  of \<open>computeSmartPower\<close> is a ValidationError or the error that its call of
  \<open>power.power\<close> returned, so an OverflowError or a ComputationLimitError can only come from
  \<open>power.power\<close>.
\<close>

theorem power_guards_raise_ValidationError:
  "(stagedMaxSteps cfg < e \<longrightarrow> computeStagedPower pw b e cfg = Inl ValidationError) \<and>
   (0 < c \<and> 2 \<le> e \<and> 1000 < length (toString (b ^ nat e))
      \<longrightarrow> computeIterativePower b e c = Some (Inl ValidationError)) \<and>
   (10 < b \<and> 100 < e
      \<longrightarrow> computeSmartPower pw (BigIntInput b) (BigIntInput e) cfg ctx = Some (Inl ValidationError)) \<and>
   (computeIterativePower b e c = Some (Inl err) \<longrightarrow> err = ValidationError) \<and>
   (computeStagedPower pw b e cfg = Inl err \<longrightarrow>
      err = ValidationError \<or>
      pw (BigIntInput b) (BigIntInput e) (cfg\<lparr>maxSteps := Some (stagedMaxSteps cfg)\<rparr>) = Inl err) \<and>
   (computeSmartPower pw base exponent cfg ctx = Some (Inl err) \<longrightarrow>
      err = ValidationError \<or> pw base exponent cfg = Inl err \<or>
      (\<exists>bigBase bigExponent. toBigInt base = Inr bigBase \<and> toBigInt exponent = Inr bigExponent \<and>
         pw (BigIntInput bigBase) (BigIntInput bigExponent)
            (cfg\<lparr>maxSteps := Some (stagedMaxSteps cfg)\<rparr>) = Inl err))"
proof (intro conjI impI)
  assume "stagedMaxSteps cfg < e"
  then show "computeStagedPower pw b e cfg = Inl ValidationError"
    by (simp add: computeStagedPower_def Let_def)
next
  assume a: "0 < c \<and> 2 \<le> e \<and> 1000 < length (toString (b ^ nat e))"
  then have "overLimitBetween b c 0 e"
    unfolding overLimitBetween_iff by (intro exI [of _ e]) simp
  then show "computeIterativePower b e c = Some (Inl ValidationError)"
    using a by (simp add: computeIterativePower_closed)
next
  assume a: "10 < b \<and> 100 < e"
  obtain s where "resolveStrategy [BigIntInput b, BigIntInput e] cfg ctx = Inr s"
      "primary s \<noteq> Heuristic"
    using resolveStrategy_ok by blast
  then show "computeSmartPower pw (BigIntInput b) (BigIntInput e) cfg ctx = Some (Inl ValidationError)"
    using a by (simp add: computeSmartPower_def toBigInt_def)
next
  assume "computeIterativePower b e c = Some (Inl err)"
  then show "err = ValidationError" by (rule computeIterativePower_error)
next
  assume "computeStagedPower pw b e cfg = Inl err"
  then show "err = ValidationError \<or>
      pw (BigIntInput b) (BigIntInput e) (cfg\<lparr>maxSteps := Some (stagedMaxSteps cfg)\<rparr>) = Inl err"
    by (rule computeStagedPower_error)
next
  assume "computeSmartPower pw base exponent cfg ctx = Some (Inl err)"
  then show "err = ValidationError \<or> pw base exponent cfg = Inl err \<or>
      (\<exists>bigBase bigExponent. toBigInt base = Inr bigBase \<and> toBigInt exponent = Inr bigExponent \<and>
         pw (BigIntInput bigBase) (BigIntInput bigExponent)
            (cfg\<lparr>maxSteps := Some (stagedMaxSteps cfg)\<rparr>) = Inl err)"
    by (rule computeSmartPower_error)
qed

lemma length_toString_power_ge:
  assumes "10 \<le> \<bar>b\<bar>" "0 < k" "k \<le> n"
  shows "k < length (toString (b ^ n))"
proof -
  have "(10::int) ^ k \<le> 10 ^ n"
    using assms by (intro power_increasing) simp_all
  also have "\<dots> \<le> \<bar>b\<bar> ^ n"
    using assms by (intro power_mono) simp_all
  finally have "10 ^ k \<le> \<bar>b ^ n\<bar>" by (simp only: power_abs)
  with assms(2) show ?thesis by (rule length_toString_gt)
qed

text \<open>
  At base 11 and exponent 1001 each of the three guards fires. At base 2 and exponent 100,
  with overflow checking enabled and a bound of 64 bits, \<open>computeSmartPower\<close> fails with an
  OverflowError, and that error is the one \<open>power.power\<close> returned.
\<close>

theorem power_guards_raise_ValidationError_witness:
  "computeStagedPower (power_spec 64) 11 1001
     \<lparr> precision = None, maxSteps = Some 1000, debug = None, checkOverflow = Some True \<rparr>
     = Inl ValidationError \<and>
   computeIterativePower 11 1001 1000 = Some (Inl ValidationError) \<and>
   computeSmartPower (power_spec 64) (BigIntInput 11) (BigIntInput 1001)
     \<lparr> precision = None, maxSteps = Some 1000, debug = None, checkOverflow = Some True \<rparr> None
     = Some (Inl ValidationError) \<and>
   computeSmartPower (power_spec 64) (BigIntInput 2) (BigIntInput 100)
     \<lparr> precision = None, maxSteps = None, debug = None, checkOverflow = Some True \<rparr> None
     = Some (Inl OverflowError) \<and>
   power_spec 64 (BigIntInput 2) (BigIntInput 100)
     \<lparr> precision = None, maxSteps = None, debug = None, checkOverflow = Some True \<rparr>
     = Inl OverflowError"
proof -
  define P where "P = (11::int) ^ 1001"
  define cfg :: HypernumConfig where
    "cfg = \<lparr> precision = None, maxSteps = None, debug = None, checkOverflow = Some True \<rparr>"
  have e: "nat (1001::int) = 1001" by simp
  have len: "1000 < length (toString P)"
    unfolding P_def by (rule length_toString_power_ge) simp_all
  note inst = power_guards_raise_ValidationError
    [where cfg = "\<lparr> precision = None, maxSteps = Some 1000, debug = None, checkOverflow = Some True \<rparr>"
       and e = 1001 and pw = "power_spec 64" and b = 11 and c = 1000 and ctx = None,
     unfolded e, folded P_def]
  have guards:
    "computeStagedPower (power_spec 64) 11 1001
       \<lparr> precision = None, maxSteps = Some 1000, debug = None, checkOverflow = Some True \<rparr>
       = Inl ValidationError \<and>
     computeIterativePower 11 1001 1000 = Some (Inl ValidationError) \<and>
     computeSmartPower (power_spec 64) (BigIntInput 11) (BigIntInput 1001)
       \<lparr> precision = None, maxSteps = Some 1000, debug = None, checkOverflow = Some True \<rparr> None
       = Some (Inl ValidationError)"
    using inst len by (simp add: stagedMaxSteps_def)
  have strat: "resolveStrategy [BigIntInput 2, BigIntInput 100] cfg None =
      Inr \<lparr> primary = Exact, fallbacks = [''staged''], expectedPrecision = 1,
            estimatedComplexity = Low,
            reasoning = ''No special dimensions detected, using exact computation'' \<rparr>"
    unfolding cfg_def by code_simp
  have pw: "power_spec 64 (BigIntInput 2) (BigIntInput 100) cfg = Inl OverflowError"
    by (simp add: power_spec_def toBigInt_def cfg_def)
  have smart: "computeSmartPower (power_spec 64) (BigIntInput 2) (BigIntInput 100) cfg None
                 = Some (Inl OverflowError)"
    by (simp add: computeSmartPower_def toBigInt_def strat pw)
  note origin = power_guards_raise_ValidationError
    [where pw = "power_spec 64" and base = "BigIntInput 2" and exponent = "BigIntInput 100"
       and cfg = cfg and ctx = None and err = OverflowError]
  have staged: "power_spec 64 (BigIntInput 2) (BigIntInput 100)
                  (cfg\<lparr>maxSteps := Some (stagedMaxSteps cfg)\<rparr>) = Inl OverflowError"
    by (simp add: power_spec_def toBigInt_def cfg_def)
  from origin smart have
    "power_spec 64 (BigIntInput 2) (BigIntInput 100) cfg = Inl OverflowError \<or>
     (\<exists>bigBase bigExponent. toBigInt (BigIntInput 2) = Inr bigBase \<and>
        toBigInt (BigIntInput 100) = Inr bigExponent \<and>
        power_spec 64 (BigIntInput bigBase) (BigIntInput bigExponent)
          (cfg\<lparr>maxSteps := Some (stagedMaxSteps cfg)\<rparr>) = Inl OverflowError)"
    by simp
  then have "power_spec 64 (BigIntInput 2) (BigIntInput 100) cfg = Inl OverflowError"
    using pw by blast
  with guards smart show ?thesis
    unfolding cfg_def by blast
qed


text \<open>
  Claim C10, amended. For every base, every exponent that is not negative and every positive
  chunk size, \<open>computeIterativePower\<close> returns, with exactly \<open>base ^ exponent\<close> or with a
  ValidationError; the ValidationError is thrown exactly when the exponent is at least 2 and
  one of the accumulated results the loop tests has a decimal string, minus sign included,
  of more than 1000 characters.
\<close>
theorem computeIterativePower_outcome:
  assumes "0 \<le> exponent" "0 < chunkSize"
  shows "\<exists>r. computeIterativePower base exponent chunkSize = Some r \<and>
           (r = Inr (base ^ nat exponent) \<or> r = Inl ValidationError) \<and>
           (r = Inl ValidationError \<longleftrightarrow> 2 \<le> exponent \<and> overLimitBetween base chunkSize 0 exponent)"
  using assms by (simp add: computeIterativePower_closed)

theorem computeIterativePower_outcome_witness:
  "computeIterativePower 2 10 4 = Some (Inr 1024)"
proof -
  have len: "length (toString 1024) = 4" by code_simp
  have "overLimitBetween 2 4 0 10 \<longleftrightarrow> 1000 < length (toString (2 ^ nat 10))"
    by (rule overLimit_even_chunk) simp_all
  then have n: "\<not> overLimitBetween 2 4 0 10" using len by simp
  have h: "(0::int) \<le> 10" "(0::int) < 4" by simp_all
  obtain r where r: "computeIterativePower 2 10 4 = Some r"
      "r = Inr (2 ^ nat 10) \<or> r = Inl ValidationError"
      "r = Inl ValidationError \<longleftrightarrow> 2 \<le> (10::int) \<and> overLimitBetween 2 4 0 10"
    using computeIterativePower_outcome [OF h, of 2] by blast
  from r(2,3) n have "r = Inr (2 ^ nat 10)" by blast
  with r(1) show ?thesis by simp
qed

lemma length_decimal_digits_power10: "length (decimal_digits (10 ^ n)) = Suc n"
proof -
  have "(10::nat) ^ n < 10 ^ Suc n" by simp
  then have upper: "length (decimal_digits (10 ^ n)) \<le> Suc n"
    by (subst length_decimal_digits_le_iff) simp_all
  have lower: "n < length (decimal_digits (10 ^ n))"
  proof (cases "n = 0")
    case True
    then show ?thesis using length_decimal_digits_pos [of "10 ^ n"] by simp
  next
    case False
    then have "\<not> length (decimal_digits (10 ^ n)) \<le> n"
      by (subst length_decimal_digits_le_iff) simp_all
    then show ?thesis by simp
  qed
  from upper lower show ?thesis by simp
qed

lemma nat_abs_neg_ten_power: "nat \<bar>(- 10 :: int) ^ n\<bar> = 10 ^ n"
proof -
  have "\<bar>(- 10 :: int) ^ n\<bar> = 10 ^ n" by (simp only: power_abs abs_minus abs_numeral)
  then show ?thesis by (simp add: nat_power_eq)
qed

lemma length_toString_neg_ten_odd:
  assumes "odd n"
  shows "length (toString ((- 10) ^ n)) = n + 2"
proof -
  have neg: "(- 10 :: int) ^ n < 0"
    using assms by (simp add: power_less_zero_eq)
  have "- ((- 10 :: int) ^ n) = \<bar>(- 10 :: int) ^ n\<bar>"
    using neg by (rule abs_of_neg [symmetric])
  then have "length (decimal_digits (nat (- ((- 10 :: int) ^ n)))) = Suc n"
    by (simp only: nat_abs_neg_ten_power length_decimal_digits_power10)
  with length_toString_neg [OF neg] show ?thesis by (simp only: add_2_eq_Suc')
qed

lemma neg_ten_rejected:
  assumes "0 < c" "odd (nat e)" "999 \<le> e"
  shows "computeIterativePower (- 10) e c = Some (Inl ValidationError)"
proof -
  have "length (toString ((- 10) ^ nat e)) = nat e + 2"
    using assms(2) by (rule length_toString_neg_ten_odd)
  then have "1000 < length (toString ((- 10) ^ nat e))"
    using assms(3) by simp
  then have "overLimitBetween (- 10) c 0 e"
    unfolding overLimitBetween_iff using assms(3) by (intro exI [of _ e]) simp
  then show ?thesis
    using assms by (simp add: computeIterativePower_closed)
qed

lemma neg_ten_digits_within:
  assumes "e \<le> 999"
  shows "\<not> digitsOverLimitBetween (- 10) c 0 e"
proof -
  have "length (decimal_digits (nat \<bar>(- 10 :: int) ^ nat m\<bar>)) \<le> 1000" if "m \<le> e" for m
  proof -
    have "length (decimal_digits (nat \<bar>(- 10 :: int) ^ nat m\<bar>)) = Suc (nat m)"
      by (simp only: nat_abs_neg_ten_power length_decimal_digits_power10)
    then show ?thesis using that assms by simp
  qed
  then show ?thesis
    unfolding digitsOverLimitBetween_def by (auto simp: not_less)
qed

text \<open>
  Claim C10, as stated, fails: \<open>computeIterativePower(-10n, 999n, 1000n)\<close> throws a
  ValidationError although its only accumulated result, \<open>(-10) ^ 999\<close>, has exactly 1000
  decimal digits; the minus sign makes its string 1001 characters long.
\<close>

theorem computeIterativePower_sign_counterexample:
  "computeIterativePower (- 10) 999 1000 = Some (Inl ValidationError) \<and>
   \<not> digitsOverLimitBetween (- 10) 1000 0 999"
proof (rule conjI)
  show "computeIterativePower (- 10) 999 1000 = Some (Inl ValidationError)"
    by (rule neg_ten_rejected) simp_all
  show "\<not> digitsOverLimitBetween (- 10) 1000 0 999"
    by (rule neg_ten_digits_within) simp
qed

text \<open>
  Claim C6 asks that \<open>resolveDimensionConflicts\<close> leave the profiles it receives unchanged.
  It copies the array but not the objects: called on a precision-tension profile and a
  heuristic-fit profile of activation \<open>1\<close>, it halves the activation of the caller's
  heuristic-fit object, and the array it returns holds the same two references.
\<close>
theorem resolveDimensionConflicts_mutates_argument:
  "activation (exampleProfiles 1) = 1 \<and>
   activation (fst (resolveDimensionConflicts exampleProfiles [0, 1]) 1) = 1 / 2 \<and>
   adjustedProfiles (snd (resolveDimensionConflicts exampleProfiles [0, 1])) = [0, 1]"
  by code_simp

lemma toDouble_literal_12_10:
  "toDouble (12 / 10) = 5404319552844595 / 4503599627370496"
  by code_simp

lemma toDouble_boost_example:
  "toDouble (3 / 4 * (5404319552844595 / 4503599627370496)) = 8106479329266892 / 9007199254740992"
  by code_simp

text \<open>
  The boost of an activation of \<open>0.75\<close> is stored as the double \<open>0.8999999999999999\<close>,
  which is \<open>8106479329266892 / 2 ^ 53\<close>, not as \<open>9 / 10\<close>.
\<close>

lemma toDouble_boost_three_quarters:
  "min (toDouble (3 / 4 * toDouble (12 / 10))) 1 = 8106479329266892 / 9007199254740992"
proof -
  have "toDouble (3 / 4 * toDouble (12 / 10)) = 8106479329266892 / 9007199254740992"
    by (simp only: toDouble_literal_12_10 toDouble_boost_example)
  then show ?thesis by simp
qed

lemma toBigInt_zero_string: "toBigInt (StringInput ''0'') = Inr 0"
  by code_simp

text \<open>
  Claim C7. For every dividend, dividing by a divisor that normalizes to zero fails with a
  ValidationError, whatever the dividend and whatever the quotient of other divisions is.
\<close>

theorem divide_by_zero_ValidationError:
  assumes "toBigInt b = Inr 0"
  shows "hypernum_divide quot a b = Inl ValidationError"
proof (cases "toBigInt a")
  case (Inl err)
  then have "err = ValidationError" by (rule toBigInt_error)
  then show ?thesis using Inl by (simp add: hypernum_divide_def)
next
  case (Inr x)
  then show ?thesis using assms by (simp add: hypernum_divide_def)
qed

theorem divide_by_zero_ValidationError_witness:
  "hypernum_divide bigint_div (BigIntInput 5) (StringInput ''0'') = Inl ValidationError \<and>
   hypernum_divide bigint_div NonIntegerInput (NumberInput 0) = Inl ValidationError"
proof -
  have n: "toBigInt (NumberInput 0) = Inr 0" by (simp add: toBigInt_def)
  show ?thesis
    using divide_by_zero_ValidationError [OF toBigInt_zero_string, of bigint_div "BigIntInput 5"]
          divide_by_zero_ValidationError [OF n, of bigint_div NonIntegerInput]
    by simp
qed

end
